theory Spec2Isabelle
  imports Complex_Main "HOL-Library.Monad_Syntax" "HOL-Library.Word"
begin

section \<open>Conventions of the embedding\<close>

text \<open>
  The program is the single file \<^verbatim>\<open>mandelbrot.cpp\<close>. Its functions are embedded as HOL
  functions of the same name; line numbers refer to that file.

  \<^item> A function whose C++ execution may have no defined result returns an \<open>option\<close>:
    \<open>None\<close> stands for undefined behaviour, for an exception, and for a \<^verbatim>\<open>double\<close> that
    is not a finite number where a finite one is needed.
  \<^item> A C++ \<^verbatim>\<open>int\<close> or \<^verbatim>\<open>long\<close> is an \<^typ>\<open>int\<close>, which is not bounded: the theorems
    describe the runs in which no C++ integer leaves its range. The counts of a frame
    are at most \<open>width * height\<close>. Loop counters that start at \<open>0\<close> and are only
    incremented are \<^typ>\<open>nat\<close>.
  \<^item> A finite \<^verbatim>\<open>double\<close> is the \<^typ>\<open>real\<close> number it denotes, and a \<^verbatim>\<open>complex<double>\<close> the
    \<^typ>\<open>complex\<close> number it denotes. The arithmetic of the program is not the arithmetic
    of the real numbers: every operation rounds. The operations are those of the
    record \<open>fp\<close> below, a parameter of every function that computes with doubles, and
    no theorem assumes more about them than its hypotheses say.
  \<^item> A \<^verbatim>\<open>vector\<close> is a list. Indexing a vector out of range, or constructing one of
    negative length, gives \<open>None\<close>.
  \<^item> The OpenMP work sharing of \<^verbatim>\<open>computeEscapeValues\<close> is a \<^emph>\<open>schedule\<close>: the list of
    pairs (thread number, row) in the order in which the rows are executed. A thread
    writes only its own histogram and the rows it executes, so the rows are executed
    one after the other in the model.
\<close>

subsection \<open>Vectors\<close>

definition vec_get :: "'a list \<Rightarrow> nat \<Rightarrow> 'a option" where
  "vec_get xs i = (if i < length xs then Some (xs ! i) else None)"

definition vec_set :: "'a list \<Rightarrow> nat \<Rightarrow> 'a \<Rightarrow> 'a list option" where
  "vec_set xs i v = (if i < length xs then Some (xs[i := v]) else None)"

text \<open>Indexing with a C++ \<^verbatim>\<open>int\<close>, which may be negative.\<close>

definition vec_get_int :: "'a list \<Rightarrow> int \<Rightarrow> 'a option" where
  "vec_get_int xs i = (if 0 \<le> i then vec_get xs (nat i) else None)"

definition vec_set_int :: "'a list \<Rightarrow> int \<Rightarrow> 'a \<Rightarrow> 'a list option" where
  "vec_set_int xs i v = (if 0 \<le> i then vec_set xs (nat i) v else None)"

text \<open>\<^verbatim>\<open>vector<T>(n, v)\<close>: a negative \<open>n\<close> converts to a huge \<^verbatim>\<open>size_t\<close> and the constructor throws.\<close>

definition vec_make :: "int \<Rightarrow> 'a \<Rightarrow> 'a list option" where
  "vec_make n v = (if n < 0 then None else Some (replicate (nat n) v))"

text \<open>A \<^verbatim>\<open>for\<close> loop over the elements of a list whose body may fail.\<close>

fun for_each :: "('a \<Rightarrow> 's \<Rightarrow> 's option) \<Rightarrow> 'a list \<Rightarrow> 's \<Rightarrow> 's option" where
  "for_each body [] s = Some s"
| "for_each body (a # as) s = (case body a s of None \<Rightarrow> None | Some s' \<Rightarrow> for_each body as s')"

subsection \<open>Doubles\<close>

text \<open>
  The floating-point operations of the platform on finite doubles.

  \<^item> \<open>rnd x\<close> is the double to which the exact result \<open>x\<close> of \<open>+\<close>, \<open>-\<close>, \<open>*\<close> or \<open>/\<close> on two
    doubles is rounded, and the double that a decimal literal denotes.
  \<^item> \<open>log2_d\<close> and \<open>pow_d\<close> are \<^verbatim>\<open>log2\<close> and \<^verbatim>\<open>pow\<close> of the C library.
  \<^item> \<open>cabs_d\<close> and \<open>cmul_d\<close> are \<^verbatim>\<open>abs\<close> and \<^verbatim>\<open>operator*\<close> of \<^verbatim>\<open>std::complex<double>\<close>.

  The conversion of an \<^verbatim>\<open>int\<close> to a \<^verbatim>\<open>double\<close> is exact, and so is that of a \<^verbatim>\<open>long\<close> whose
  magnitude is below \<open>2\<^sup>5\<^sup>3\<close>, as the pixel counts are. A result that is too large for a
  finite double is not modelled: the theorems describe the runs without overflow. The
  compiler is taken not to fuse a product and a sum into one operation.
\<close>

record fp =
  rnd :: "real \<Rightarrow> real"
  log2_d :: "real \<Rightarrow> real"
  pow_d :: "real \<Rightarrow> real \<Rightarrow> real"
  cabs_d :: "complex \<Rightarrow> real"
  cmul_d :: "complex \<Rightarrow> complex \<Rightarrow> complex"

definition add_d :: "fp \<Rightarrow> real \<Rightarrow> real \<Rightarrow> real" where
  "add_d ops a b = rnd ops (a + b)"

definition sub_d :: "fp \<Rightarrow> real \<Rightarrow> real \<Rightarrow> real" where
  "sub_d ops a b = rnd ops (a - b)"

definition mul_d :: "fp \<Rightarrow> real \<Rightarrow> real \<Rightarrow> real" where
  "mul_d ops a b = rnd ops (a * b)"

definition div_d :: "fp \<Rightarrow> real \<Rightarrow> real \<Rightarrow> real" where
  "div_d ops a b = rnd ops (a / b)"

text \<open>A division whose result is used as a finite number: a zero divisor gives an
  infinity or NaN.\<close>

definition ddiv :: "fp \<Rightarrow> real \<Rightarrow> real \<Rightarrow> real option" where
  "ddiv ops a b = (if b = 0 then None else Some (div_d ops a b))"

text \<open>\<^verbatim>\<open>operator+\<close> of \<^verbatim>\<open>std::complex<double>\<close> adds the parts.\<close>

definition cadd_d :: "fp \<Rightarrow> complex \<Rightarrow> complex \<Rightarrow> complex" where
  "cadd_d ops z w = Complex (add_d ops (Re z) (Re w)) (add_d ops (Im z) (Im w))"

text \<open>The conversion \<^verbatim>\<open>int(d)\<close> of a double: truncation toward zero.\<close>

definition trunc_int :: "real \<Rightarrow> int" where
  "trunc_int d = (if 0 \<le> d then \<lfloor>d\<rfloor> else \<lceil>d\<rceil>)"

section \<open>Escape iterations of one pixel\<close>

text \<open>
  Lines 38--43: \<^verbatim>\<open>int n = 0; while (abs(z) <= 2.0 && n < maxIter) { z = z * z + c; n++; }\<close>
  started from \<open>z = 0\<close>.
\<close>

function escape_while :: "fp \<Rightarrow> complex \<Rightarrow> int \<Rightarrow> complex \<Rightarrow> int \<Rightarrow> int" where
  "escape_while ops c maxIter z n =
     (if cabs_d ops z \<le> 2 \<and> n < maxIter
      then escape_while ops c maxIter (cadd_d ops (cmul_d ops z z) c) (n + 1)
      else n)"
  by pat_completeness auto
termination
  by (relation "measure (\<lambda>(ops, c, maxIter, z, n). nat (maxIter - n))") auto

declare escape_while.simps [simp del]

text \<open>Lines 32--36: the point of the complex plane of pixel \<open>(x, y)\<close>.\<close>

definition pixel_c :: "fp \<Rightarrow> int \<Rightarrow> int \<Rightarrow> real \<Rightarrow> real \<Rightarrow> real \<Rightarrow> real \<Rightarrow> nat \<Rightarrow> nat \<Rightarrow> complex" where
  "pixel_c ops width height x_min x_max y_min y_max x y =
     (let real_part = add_d ops x_min
            (mul_d ops (div_d ops (real x) (real_of_int width)) (sub_d ops x_max x_min));
          imag_part = add_d ops y_min
            (mul_d ops (div_d ops (real y) (real_of_int height)) (sub_d ops y_max y_min))
      in Complex real_part imag_part)"

definition escape_value ::
  "fp \<Rightarrow> int \<Rightarrow> int \<Rightarrow> int \<Rightarrow> real \<Rightarrow> real \<Rightarrow> real \<Rightarrow> real \<Rightarrow> nat \<Rightarrow> nat \<Rightarrow> int" where
  "escape_value ops maxIter width height x_min x_max y_min y_max x y =
     escape_while ops (pixel_c ops width height x_min x_max y_min y_max x y) maxIter 0 0"

section \<open>computeEscapeValues\<close>

type_synonym field = "int list list"
type_synonym hists = "int list list"

text \<open>Lines 32--46, the body of the inner loop, run by thread \<open>tid\<close> for pixel \<open>(x, y)\<close>.\<close>

definition pixel_body ::
  "fp \<Rightarrow> int \<Rightarrow> int \<Rightarrow> int \<Rightarrow> real \<Rightarrow> real \<Rightarrow> real \<Rightarrow> real \<Rightarrow> nat \<Rightarrow> nat \<Rightarrow> nat
    \<Rightarrow> field \<times> hists \<Rightarrow> (field \<times> hists) option" where
  "pixel_body ops maxIter width height x_min x_max y_min y_max tid y x =
     (\<lambda>(storeN, histPerThread).
        let n = escape_value ops maxIter width height x_min x_max y_min y_max x y in
        do {
          row \<leftarrow> vec_get storeN y;
          row' \<leftarrow> vec_set row x n;
          storeN' \<leftarrow> vec_set storeN y row';
          localHist \<leftarrow> vec_get histPerThread tid;
          cnt \<leftarrow> vec_get_int localHist n;
          localHist' \<leftarrow> vec_set_int localHist n (cnt + 1);
          histPerThread' \<leftarrow> vec_set histPerThread tid localHist';
          Some (storeN', histPerThread')
        })"

text \<open>Lines 30--47: the loop over \<open>x\<close> of row \<open>y\<close>.\<close>

definition row_body ::
  "fp \<Rightarrow> int \<Rightarrow> int \<Rightarrow> int \<Rightarrow> real \<Rightarrow> real \<Rightarrow> real \<Rightarrow> real \<Rightarrow> nat \<times> nat
    \<Rightarrow> field \<times> hists \<Rightarrow> (field \<times> hists) option" where
  "row_body ops maxIter width height x_min x_max y_min y_max =
     (\<lambda>(tid, y). for_each (pixel_body ops maxIter width height x_min x_max y_min y_max tid y)
                    [0..<nat width])"

text \<open>
  A schedule of the \<^verbatim>\<open>omp for\<close> over the rows: every row \<open>0 \<le> y < height\<close> is executed
  exactly once, by a thread of the team, and the team has at most \<open>nThreads\<close> threads.
\<close>

definition schedule_ok :: "nat \<Rightarrow> int \<Rightarrow> (nat \<times> nat) list \<Rightarrow> bool" where
  "schedule_ok nThreads height sched \<longleftrightarrow>
     distinct (map snd sched) \<and> set (map snd sched) = {0..<nat height} \<and>
     (\<forall>p \<in> set sched. fst p < nThreads)"

definition computeEscapeValues ::
  "fp \<Rightarrow> field \<Rightarrow> hists \<Rightarrow> int \<Rightarrow> int \<Rightarrow> int \<Rightarrow> real \<Rightarrow> real \<Rightarrow> real \<Rightarrow> real \<Rightarrow> (nat \<times> nat) list
    \<Rightarrow> (field \<times> hists) option" where
  "computeEscapeValues ops storeN histPerThread maxIter width height x_min x_max y_min y_max sched =
     for_each (row_body ops maxIter width height x_min x_max y_min y_max) sched
       (storeN, histPerThread)"

section \<open>computeHistogram\<close>

text \<open>Line 64: \<^verbatim>\<open>hist[i] += histPerThread[t][i]\<close>.\<close>

definition hist_body :: "hists \<Rightarrow> nat \<Rightarrow> nat \<Rightarrow> int list \<Rightarrow> int list option" where
  "hist_body histPerThread t i hist =
     do {
       h \<leftarrow> vec_get histPerThread t;
       v \<leftarrow> vec_get h i;
       old \<leftarrow> vec_get hist i;
       vec_set hist i (old + v)
     }"

definition computeHistogram :: "hists \<Rightarrow> int \<Rightarrow> int list option" where
  "computeHistogram histPerThread maxIter =
     (let nThreads = length histPerThread in
      do {
        hist \<leftarrow> vec_make (maxIter + 1) 0;
        for_each (\<lambda>t. for_each (hist_body histPerThread t) [0..<nat (maxIter + 1)])
          [0..<nThreads] hist
      })"

section \<open>computeCDF\<close>

text \<open>Lines 80--81: \<^verbatim>\<open>accum += hist[i]; cdf[i] = double(accum) / totalPixels\<close>.\<close>

definition cdf_body :: "fp \<Rightarrow> int list \<Rightarrow> int \<Rightarrow> nat \<Rightarrow> real list \<times> int \<Rightarrow> (real list \<times> int) option" where
  "cdf_body ops hist totalPixels i =
     (\<lambda>(cdf, accum).
        do {
          h \<leftarrow> vec_get hist i;
          let accum' = accum + h;
          q \<leftarrow> ddiv ops (real_of_int accum') (real_of_int totalPixels);
          cdf' \<leftarrow> vec_set cdf i q;
          Some (cdf', accum')
        })"

definition computeCDF :: "fp \<Rightarrow> int list \<Rightarrow> int \<Rightarrow> real list option" where
  "computeCDF ops hist totalPixels =
     (let maxIter = int (length hist) - 1 in
      do {
        cdf \<leftarrow> vec_make (maxIter + 1) 0;
        (cdf', accum) \<leftarrow> for_each (cdf_body ops hist totalPixels) [0..<nat (maxIter + 1)] (cdf, 0);
        Some cdf'
      })"

section \<open>colorizeImage\<close>

type_synonym Vec3b = "8 word \<times> 8 word \<times> 8 word"

record Mat =
  rows :: int
  cols :: int
  data :: "Vec3b list list"

definition mat_ok :: "Mat \<Rightarrow> bool" where
  "mat_ok m \<longleftrightarrow> 0 \<le> rows m \<and> 0 \<le> cols m \<and> length (data m) = nat (rows m) \<and>
     (\<forall>r \<in> set (data m). length r = nat (cols m))"

text \<open>\<^verbatim>\<open>image.at<Vec3b>(y, x) = p\<close>.\<close>

definition mat_set :: "Mat \<Rightarrow> nat \<Rightarrow> nat \<Rightarrow> Vec3b \<Rightarrow> Mat option" where
  "mat_set m y x p =
     do {
       row \<leftarrow> vec_get (data m) y;
       row' \<leftarrow> vec_set row x p;
       d \<leftarrow> vec_set (data m) y row';
       Some (m\<lparr>data := d\<rparr>)
     }"

text \<open>
  Lines 114--115: \<^verbatim>\<open>vGamma = pow(v, gamma); V = int(255 * vGamma)\<close> with \<open>gamma = 0.5\<close>.
  \<^verbatim>\<open>pow\<close> of a negative number to the power \<open>0.5\<close> is NaN, whose conversion to \<^verbatim>\<open>int\<close> is
  undefined.
\<close>

definition intensity :: "fp \<Rightarrow> real \<Rightarrow> int option" where
  "intensity ops v =
     (let gamma = 0.5 in
      if v < 0 then None
      else let vGamma = pow_d ops v gamma in Some (trunc_int (mul_d ops 255 vGamma)))"

text \<open>
  Lines 105--124 for one pixel of escape value \<open>n\<close>. The OpenCV conversion of the one-pixel
  matrix \<^verbatim>\<open>Scalar(H, S, V)\<close> by \<^verbatim>\<open>cvtColor(hsv, rgb, COLOR_HSV2BGR)\<close> is the parameter
  \<open>hsv2bgr\<close>: OpenCV is not part of the repository.
\<close>

definition colorize_pixel ::
  "fp \<Rightarrow> (int \<times> int \<times> int \<Rightarrow> Vec3b) \<Rightarrow> real list \<Rightarrow> int \<Rightarrow> int \<Rightarrow> Vec3b option" where
  "colorize_pixel ops hsv2bgr cdf maxIter n =
     (if n = maxIter then Some (0, 0, 0)
      else do {
        v \<leftarrow> vec_get_int cdf n;
        V \<leftarrow> intensity ops v;
        let H = 110;
        let S = 255;
        Some (hsv2bgr (H, S, V))
      })"

definition colorize_body ::
  "fp \<Rightarrow> (int \<times> int \<times> int \<Rightarrow> Vec3b) \<Rightarrow> field \<Rightarrow> real list \<Rightarrow> int \<Rightarrow> nat \<Rightarrow> nat \<Rightarrow> Mat \<Rightarrow> Mat option" where
  "colorize_body ops hsv2bgr storeN cdf maxIter y x img =
     do {
       row \<leftarrow> vec_get storeN y;
       n \<leftarrow> vec_get row x;
       p \<leftarrow> colorize_pixel ops hsv2bgr cdf maxIter n;
       mat_set img y x p
     }"

text \<open>
  The rows are shared among the threads by \<^verbatim>\<open>omp parallel for\<close>. An iteration reads
  \<open>storeN\<close> and \<open>cdf\<close> and writes one pixel of its own; the rows are taken in increasing
  order here.
\<close>

definition colorizeImage ::
  "fp \<Rightarrow> (int \<times> int \<times> int \<Rightarrow> Vec3b) \<Rightarrow> Mat \<Rightarrow> field \<Rightarrow> real list \<Rightarrow> int \<Rightarrow> Mat option" where
  "colorizeImage ops hsv2bgr img storeN cdf maxIter =
     (let width = cols img; height = rows img in
      for_each (\<lambda>y. for_each (colorize_body ops hsv2bgr storeN cdf maxIter y) [0..<nat width])
        [0..<nat height] img)"

section \<open>computeFrame\<close>

text \<open>
  The memory that \<^verbatim>\<open>computeFrame\<close> and the loop of \<^verbatim>\<open>main\<close> work on: the variables \<open>zoom\<close>
  and \<open>image\<close> (here \<open>image_m\<close>) of \<^verbatim>\<open>main\<close>, which \<^verbatim>\<open>computeFrame\<close> receives by reference, its static
  counter \<open>frameCount\<close>, the images handed to \<^verbatim>\<open>imwrite\<close> with their frame number, the
  counter \<open>frame\<close> of \<^verbatim>\<open>main\<close> and the progress lines printed by \<^verbatim>\<open>main\<close>.
\<close>

record store =
  zoom :: real
  image_m :: Mat
  frameCount :: int
  written :: "(int \<times> Mat) list"
  frame :: int
  progress :: "(int \<times> real) list"

text \<open>What the surroundings decide: the floating-point operations, the number of OpenMP
  threads, the schedule of each frame (by the value of \<open>frameCount\<close>) and the colour
  conversion of OpenCV.\<close>

record env =
  arith :: fp
  max_threads :: nat
  schedule :: "int \<Rightarrow> (nat \<times> nat) list"
  hsv2bgr :: "int \<times> int \<times> int \<Rightarrow> Vec3b"

text \<open>Lines 132--137.\<close>

definition writeFrame :: "Mat \<Rightarrow> int \<Rightarrow> store \<Rightarrow> store" where
  "writeFrame img frame_no st = st\<lparr>written := written st @ [(frame_no, img)]\<rparr>"

text \<open>Lines 149--156.\<close>

definition frame_viewport ::
  "fp \<Rightarrow> real \<Rightarrow> real \<Rightarrow> real \<Rightarrow> real \<Rightarrow> real \<Rightarrow> (real \<times> real \<times> real \<times> real) option" where
  "frame_viewport ops centerX centerY xRangeStart yRangeStart zoom_v =
     do {
       scale \<leftarrow> ddiv ops 1 zoom_v;
       let xRange = mul_d ops xRangeStart scale;
       let yRange = mul_d ops yRangeStart scale;
       let x_min = sub_d ops centerX (div_d ops xRange 2);
       let x_max = add_d ops centerX (div_d ops xRange 2);
       let y_min = sub_d ops centerY (div_d ops yRange 2);
       let y_max = add_d ops centerY (div_d ops yRange 2);
       Some (x_min, x_max, y_min, y_max)
     }"

text \<open>Line 158: \<^verbatim>\<open>int maxIter = 64 + int(log2(zoom) * 64)\<close>. The logarithm of a number
  that is not positive is minus infinity or NaN.\<close>

definition frame_maxIter :: "fp \<Rightarrow> real \<Rightarrow> int option" where
  "frame_maxIter ops zoom_v =
     (if zoom_v \<le> 0 then None
      else Some (64 + trunc_int (mul_d ops (log2_d ops zoom_v) 64)))"

text \<open>Lines 160--170: the escape field and the merged histogram of the frame.\<close>

definition frame_histogram ::
  "fp \<Rightarrow> nat \<Rightarrow> (nat \<times> nat) list \<Rightarrow> int \<Rightarrow> int \<Rightarrow> int \<Rightarrow> real \<times> real \<times> real \<times> real
    \<Rightarrow> (field \<times> int list) option" where
  "frame_histogram ops nThreads sched width height maxIter =
     (\<lambda>(x_min, x_max, y_min, y_max).
        do {
          row0 \<leftarrow> vec_make width 0;
          storeN0 \<leftarrow> vec_make height row0;
          hist0 \<leftarrow> vec_make (maxIter + 1) 0;
          let histPerThread0 = replicate nThreads hist0;
          (storeN, histPerThread) \<leftarrow>
            computeEscapeValues ops storeN0 histPerThread0 maxIter width height
              x_min x_max y_min y_max sched;
          hist \<leftarrow> computeHistogram histPerThread maxIter;
          Some (storeN, hist)
        })"

definition computeFrame ::
  "env \<Rightarrow> int \<Rightarrow> int \<Rightarrow> real \<Rightarrow> real \<Rightarrow> real \<Rightarrow> real \<Rightarrow> store \<Rightarrow> store option" where
  "computeFrame e width height centerX centerY xRangeStart yRangeStart st =
     do {
       viewport \<leftarrow> frame_viewport (arith e) centerX centerY xRangeStart yRangeStart (zoom st);
       maxIter \<leftarrow> frame_maxIter (arith e) (zoom st);
       (storeN, hist) \<leftarrow>
         frame_histogram (arith e) (max_threads e) (schedule e (frameCount st))
           width height maxIter viewport;
       cdf \<leftarrow> computeCDF (arith e) hist (width * height);
       image' \<leftarrow> colorizeImage (arith e) (hsv2bgr e) (image_m st) storeN cdf maxIter;
       let st1 = st\<lparr>image_m := image'\<rparr>;
       let st2 = writeFrame image' (frameCount st1) st1;
       Some (st2\<lparr>frameCount := frameCount st2 + 1\<rparr>)
     }"

section \<open>main\<close>

text \<open>Lines 219--221. A frame rate of \<open>0\<close> makes the exponent \<^verbatim>\<open>1.0 / fps\<close> infinite.\<close>

definition scalePerFrame :: "fp \<Rightarrow> int \<Rightarrow> real option" where
  "scalePerFrame ops fps =
     (let secondsPerZoomDoubling = 1.25;
          zoomScalePerSecond = pow_d ops 2 (div_d ops 1 secondsPerZoomDoubling)
      in do {
        exponent \<leftarrow> ddiv ops 1 (real_of_int fps);
        Some (pow_d ops zoomScalePerSecond exponent)
      })"

text \<open>Lines 231--240, the body of the render loop.\<close>

definition loop_body ::
  "env \<Rightarrow> int \<Rightarrow> int \<Rightarrow> real \<Rightarrow> real \<Rightarrow> real \<Rightarrow> real option \<Rightarrow> real option \<Rightarrow> store \<Rightarrow> store option" where
  "loop_body e width height centerX centerY xRangeStart yRangeStart scale st =
     do {
       s \<leftarrow> scale;
       let st1 = st\<lparr>zoom := mul_d (arith e) (zoom st) s\<rparr>;
       yr \<leftarrow> yRangeStart;
       st2 \<leftarrow> computeFrame e width height centerX centerY xRangeStart yr st1;
       let st3 = st2\<lparr>progress := progress st2 @ [(frame st2, zoom st2)]\<rparr>;
       Some (st3\<lparr>frame := frame st3 + 1\<rparr>)
     }"

text \<open>
  Lines 229--241: \<^verbatim>\<open>while (zoom < zoomEnd) { ... }\<close>. The result is \<open>None\<close> when the loop
  runs forever, \<open>Some None\<close> when an iteration has no defined result and \<open>Some (Some st)\<close>
  when the loop is left with memory \<open>st\<close>.
\<close>

partial_function (option) render_loop ::
  "(store \<Rightarrow> store option) \<Rightarrow> real \<Rightarrow> store \<Rightarrow> store option option" where
  "render_loop body zoomEnd st =
     (if zoom st < zoomEnd
      then (case body st of None \<Rightarrow> Some None | Some st' \<Rightarrow> render_loop body zoomEnd st')
      else Some (Some st))"

text \<open>
  A \<^verbatim>\<open>double\<close> that is printed: a finite number, an infinity or NaN. The quotient of two
  finite doubles is computed without a test of the divisor: a zero divisor gives NaN
  for a zero dividend and an infinity of the sign of the dividend otherwise.
\<close>

datatype dbl_result = Fin real | PlusInf | MinusInf | NotNum

definition quot_d :: "fp \<Rightarrow> real \<Rightarrow> real \<Rightarrow> dbl_result" where
  "quot_d ops a b =
     (if b \<noteq> 0 then Fin (div_d ops a b)
      else if a = 0 then NotNum else if 0 < a then PlusInf else MinusInf)"

text \<open>Lines 260--267, the final report; the time per frame is \<^verbatim>\<open>elapsedSec / frame\<close>.\<close>

record report =
  frames_generated :: int
  final_zoom :: real
  total_time :: real
  time_per_frame :: dbl_result

definition final_report :: "fp \<Rightarrow> real \<Rightarrow> store \<Rightarrow> report" where
  "final_report ops elapsedSec st =
     \<lparr>frames_generated = frame st, final_zoom = zoom st, total_time = elapsedSec,
      time_per_frame = quot_d ops elapsedSec (real_of_int (frame st))\<rparr>"

text \<open>
  Lines 195--267 of \<^verbatim>\<open>main\<close>, after the arguments have been read. The pixels of the fresh
  \<^verbatim>\<open>Mat image(height, width, CV_8UC3)\<close> are not initialised: they are the parameter
  \<open>pixels0\<close>. The time measured by the clock is the parameter \<open>elapsedSec\<close>. The shell
  commands are not modelled.
\<close>

definition main_store :: "int \<Rightarrow> int \<Rightarrow> Vec3b list list \<Rightarrow> store" where
  "main_store width height pixels0 =
     \<lparr>zoom = 1, image_m = \<lparr>rows = height, cols = width, data = pixels0\<rparr>,
      frameCount = 0, written = [], frame = 0, progress = []\<rparr>"

text \<open>Lines 200--205: the centre of the zoom and the ranges at zoom \<open>1\<close>. The literals
  of the centre are rounded to doubles.\<close>

definition main_centerX :: "fp \<Rightarrow> real" where
  "main_centerX ops = rnd ops (- 0.74364388703715870475)"

definition main_centerY :: "fp \<Rightarrow> real" where
  "main_centerY ops = rnd ops 0.13182590420531197049"

definition main_xRangeStart :: real where
  "main_xRangeStart = 3"

definition main_yRangeStart :: "fp \<Rightarrow> int \<Rightarrow> int \<Rightarrow> real option" where
  "main_yRangeStart ops width height =
     (let aspect = ddiv ops (real_of_int width) (real_of_int height)
      in Option.bind aspect (ddiv ops main_xRangeStart))"

definition main_loop ::
  "env \<Rightarrow> int \<Rightarrow> int \<Rightarrow> int \<Rightarrow> real \<Rightarrow> Vec3b list list \<Rightarrow> store option option" where
  "main_loop e width height fps zoomEnd pixels0 =
     (let scale = scalePerFrame (arith e) fps
      in render_loop
           (loop_body e width height (main_centerX (arith e)) (main_centerY (arith e))
              main_xRangeStart (main_yRangeStart (arith e) width height) scale)
           zoomEnd (main_store width height pixels0))"

definition main :: "env \<Rightarrow> int \<Rightarrow> int \<Rightarrow> int \<Rightarrow> real \<Rightarrow> Vec3b list list \<Rightarrow> real \<Rightarrow> report option option" where
  "main e width height fps zoomEnd pixels0 elapsedSec =
     map_option (map_option (final_report (arith e) elapsedSec))
       (main_loop e width height fps zoomEnd pixels0)"

section \<open>Notions used to state the properties\<close>

text \<open>The arithmetic of the real numbers, in which nothing is rounded. It is the
  instance at which the theorems are evaluated, on inputs whose results are doubles;
  a theorem about every \<open>ops\<close> holds in particular for the real numbers.\<close>

definition exact_ops :: fp where
  "exact_ops = \<lparr>rnd = (\<lambda>x. x), log2_d = log 2, pow_d = (powr), cabs_d = cmod, cmul_d = (*)\<rparr>"

text \<open>What rounding to the nearest double guarantees, as far as the theorems need it:
  rounding keeps the order, and \<open>0\<close>, \<open>1\<close> and \<open>64\<close> are doubles.\<close>

definition rnd_ok :: "fp \<Rightarrow> bool" where
  "rnd_ok ops \<longleftrightarrow> (\<forall>a b. a \<le> b \<longrightarrow> rnd ops a \<le> rnd ops b) \<and>
     rnd ops 0 = 0 \<and> rnd ops 1 = 1 \<and> rnd ops 64 = 64"

text \<open>What the theorems on the iteration depth need of \<^verbatim>\<open>log2\<close>: it keeps the order of
  the positive numbers and is exact at \<open>1\<close> and at \<open>2\<close>.\<close>

definition log2_ok :: "fp \<Rightarrow> bool" where
  "log2_ok ops \<longleftrightarrow> (\<forall>a b. 0 < a \<and> a \<le> b \<longrightarrow> log2_d ops a \<le> log2_d ops b) \<and>
     log2_d ops 1 = 0 \<and> log2_d ops 2 = 1"

text \<open>The orbit of \<open>0\<close> under \<open>z \<mapsto> z * z + c\<close> as the program computes it:
  \<open>spec_orbit ops c k\<close> is \<open>z\<close> after \<open>k\<close> iterations.\<close>

fun spec_orbit :: "fp \<Rightarrow> complex \<Rightarrow> nat \<Rightarrow> complex" where
  "spec_orbit ops c 0 = 0"
| "spec_orbit ops c (Suc k) = cadd_d ops (cmul_d ops (spec_orbit ops c k) (spec_orbit ops c k)) c"

text \<open>The sum of the entries at index \<open>i\<close> of a list of histograms.\<close>

definition col_sum :: "int list list \<Rightarrow> nat \<Rightarrow> int" where
  "col_sum hs i = (\<Sum>h\<leftarrow>hs. h ! i)"

text \<open>The number of pixels of an escape field whose value is \<open>i\<close>.\<close>

definition pixels_with :: "int list list \<Rightarrow> int \<Rightarrow> nat" where
  "pixels_with storeN i = (\<Sum>row\<leftarrow>storeN. count_list row i)"

text \<open>The number of pixels \<open>x < i\<close> of row \<open>y\<close> whose escape value is \<open>k\<close>.\<close>

definition row_count ::
  "fp \<Rightarrow> int \<Rightarrow> int \<Rightarrow> int \<Rightarrow> real \<Rightarrow> real \<Rightarrow> real \<Rightarrow> real \<Rightarrow> nat \<Rightarrow> nat \<Rightarrow> nat \<Rightarrow> nat" where
  "row_count ops maxIter width height x_min x_max y_min y_max y i k =
     length (filter (\<lambda>x. escape_value ops maxIter width height x_min x_max y_min y_max x y = int k) [0..<i])"

text \<open>The zoom after \<open>k\<close> multiplications by \<open>s\<close>, starting from \<open>1\<close>:
  \<open>zoom\<^sub>0 = 1\<close> and \<open>zoom\<^sub>k\<^sub>+\<^sub>1 = zoom\<^sub>k * s\<close>, the product of doubles.\<close>

fun zoom_seq :: "fp \<Rightarrow> real \<Rightarrow> nat \<Rightarrow> real" where
  "zoom_seq ops s 0 = 1"
| "zoom_seq ops s (Suc k) = mul_d ops (zoom_seq ops s k) s"

text \<open>
  The memory of \<^verbatim>\<open>main\<close> after \<open>k\<close> iterations of the render loop with scale \<open>s\<close>, where
  \<open>render\<close> is the call of \<^verbatim>\<open>computeFrame\<close> in the loop: the zoom is \<open>zoom\<^sub>k\<close>, both counters
  are \<open>k\<close>, frame \<open>j < k\<close> was announced with the zoom \<open>zoom\<^sub>j\<^sub>+\<^sub>1\<close>, the frames
  \<open>0, \<dots>, k - 1\<close> were written in this order, and the image written as frame \<open>j\<close> is the
  one that \<open>render\<close> returns when it is called with the zoom \<open>zoom\<^sub>j\<^sub>+\<^sub>1\<close>, that is after the
  multiplication number \<open>j + 1\<close>, with the counter \<open>frameCount = j\<close> and an image of the
  same dimensions.
\<close>

definition after_frames :: "(store \<Rightarrow> store option) \<Rightarrow> fp \<Rightarrow> real \<Rightarrow> nat \<Rightarrow> store \<Rightarrow> bool" where
  "after_frames render ops s k st \<longleftrightarrow>
     zoom st = zoom_seq ops s k \<and> frame st = int k \<and> frameCount st = int k \<and>
     progress st = map (\<lambda>j. (int j, zoom_seq ops s (Suc j))) [0..<k] \<and>
     map fst (written st) = map int [0..<k] \<and>
     (\<forall>j<k. \<exists>st1 st2. zoom st1 = zoom_seq ops s (Suc j) \<and> frameCount st1 = int j \<and>
        rows (image_m st1) = rows (image_m st) \<and> cols (image_m st1) = cols (image_m st) \<and>
        render st1 = Some st2 \<and> snd (written st ! j) = image_m st2)"

section \<open>Loops\<close>

lemma for_each_append:
  "for_each body (xs @ ys) s = (case for_each body xs s of None \<Rightarrow> None | Some s' \<Rightarrow> for_each body ys s')"
  by (induction xs arbitrary: s) (auto split: option.splits)

lemma for_each_upt_total:
  assumes "Q 0 s0"
    and "\<And>i s. i < n \<Longrightarrow> Q i s \<Longrightarrow> \<exists>s'. body i s = Some s' \<and> Q (Suc i) s'"
  shows "\<exists>s'. for_each body [0..<n] s0 = Some s' \<and> Q n s'"
  using assms(2)
proof (induction n)
  case 0
  then show ?case using assms(1) by simp
next
  case (Suc n)
  then obtain s1 where s1: "for_each body [0..<n] s0 = Some s1" "Q n s1"
    by (metis less_Suc_eq)
  from Suc.prems[OF _ s1(2)] obtain s2 where "body n s1 = Some s2" "Q (Suc n) s2"
    by auto
  with s1 show ?case
    by (simp add: for_each_append)
qed

lemma for_each_upt_partial:
  assumes "for_each body [0..<n] s0 = Some sn"
    and "Q 0 s0"
    and "\<And>i s s'. i < n \<Longrightarrow> Q i s \<Longrightarrow> body i s = Some s' \<Longrightarrow> Q (Suc i) s'"
  shows "Q n sn"
  using assms(1,3)
proof (induction n arbitrary: sn)
  case 0
  then show ?case using assms(2) by simp
next
  case (Suc n)
  from Suc.prems(1) obtain s1 where s1: "for_each body [0..<n] s0 = Some s1" "body n s1 = Some sn"
    by (auto simp: for_each_append split: option.splits)
  have "Q n s1"
    using Suc.IH[OF s1(1)] Suc.prems(2) by (metis less_Suc_eq)
  then show ?case
    using Suc.prems(2)[of n s1 sn] s1(2) by simp
qed

lemma for_each_list_total:
  assumes "Q [] s0"
    and "\<And>ys a zs s. xs = ys @ a # zs \<Longrightarrow> Q ys s \<Longrightarrow> \<exists>s'. body a s = Some s' \<and> Q (ys @ [a]) s'"
  shows "\<exists>s'. for_each body xs s0 = Some s' \<and> Q xs s'"
proof -
  have "\<And>ys s. xs = ys @ zs \<Longrightarrow> Q ys s \<Longrightarrow> \<exists>s'. for_each body zs s = Some s' \<and> Q xs s'" for zs
  proof (induction zs)
    case Nil
    then show ?case by simp
  next
    case (Cons a zs)
    from assms(2)[OF Cons.prems] obtain s1 where s1: "body a s = Some s1" "Q (ys @ [a]) s1"
      by auto
    from Cons.IH[of "ys @ [a]" s1] Cons.prems(1) s1(2)
    obtain s' where "for_each body zs s1 = Some s'" "Q xs s'" by auto
    with s1(1) show ?case by simp
  qed
  from this[of "[]" xs s0] assms(1) show ?thesis by simp
qed

section \<open>The escape loop\<close>

lemma escape_while_step:
  "cabs_d ops z \<le> 2 \<Longrightarrow> n < maxIter \<Longrightarrow>
   escape_while ops c maxIter z n = escape_while ops c maxIter (cadd_d ops (cmul_d ops z z) c) (n + 1)"
  by (subst escape_while.simps) simp

lemma escape_while_stop:
  "\<not> (cabs_d ops z \<le> 2 \<and> n < maxIter) \<Longrightarrow> escape_while ops c maxIter z n = n"
  by (subst escape_while.simps) auto

lemma escape_while_bounds:
  "n \<le> maxIter \<Longrightarrow> n \<le> escape_while ops c maxIter z n \<and> escape_while ops c maxIter z n \<le> maxIter"
proof (induction ops c maxIter z n rule: escape_while.induct)
  case (1 ops c maxIter z n)
  show ?case
  proof (cases "cabs_d ops z \<le> 2 \<and> n < maxIter")
    case True
    with 1 show ?thesis by (simp add: escape_while_step)
  next
    case False
    with 1 show ?thesis by (simp add: escape_while_stop)
  qed
qed

lemma escape_while_orbit:
  "z = spec_orbit ops c j \<Longrightarrow> n = int j \<Longrightarrow> r = escape_while ops c maxIter z n \<Longrightarrow>
   (\<forall>k. j \<le> k \<and> int k < r \<longrightarrow> cabs_d ops (spec_orbit ops c k) \<le> 2) \<and>
   (r < maxIter \<longrightarrow> 2 < cabs_d ops (spec_orbit ops c (nat r))) \<and> n \<le> r"
proof (induction ops c maxIter z n arbitrary: j rule: escape_while.induct)
  case (1 ops c maxIter z n)
  show ?case
  proof (cases "cabs_d ops z \<le> 2 \<and> n < maxIter")
    case True
    then have r: "r = escape_while ops c maxIter (cadd_d ops (cmul_d ops z z) c) (n + 1)"
      using 1(4) by (simp add: escape_while_step)
    have "cadd_d ops (cmul_d ops z z) c = spec_orbit ops c (Suc j)" using 1(2) by simp
    from 1(1)[OF True this _ r] 1(3)
    have IH: "(\<forall>k. Suc j \<le> k \<and> int k < r \<longrightarrow> cabs_d ops (spec_orbit ops c k) \<le> 2)"
      "r < maxIter \<longrightarrow> 2 < cabs_d ops (spec_orbit ops c (nat r))" "n + 1 \<le> r"
      by auto
    have "cabs_d ops (spec_orbit ops c k) \<le> 2" if "j \<le> k" "int k < r" for k
    proof (cases "k = j")
      case True
      then show ?thesis using \<open>cabs_d ops z \<le> 2 \<and> n < maxIter\<close> 1(2) by simp
    next
      case False
      then show ?thesis using IH(1) that by auto
    qed
    with IH show ?thesis by auto
  next
    case False
    then have r: "r = n" using 1(4) by (simp add: escape_while_stop)
    with False 1(2,3) show ?thesis by auto
  qed
qed

lemma escape_value_range:
  "0 \<le> maxIter \<Longrightarrow>
   0 \<le> escape_value ops maxIter width height x_min x_max y_min y_max x y \<and>
   escape_value ops maxIter width height x_min x_max y_min y_max x y \<le> maxIter"
  using escape_while_bounds[of 0 maxIter] by (simp add: escape_value_def)

section \<open>The escape field and the histograms of the threads\<close>

lemma sum_list_update_int:
  "k < length xs \<Longrightarrow> sum_list (xs[k := (v::int)]) = sum_list xs + v - xs ! k"
  by (induction xs arbitrary: k) (auto split: nat.splits)

lemma col_sum_bump:
  assumes "t < length hs" "k < length (hs ! t)"
  shows "col_sum (hs[t := (hs ! t)[k := hs ! t ! k + 1]]) i = col_sum hs i + (if i = k then 1 else 0)"
proof -
  have "map (\<lambda>h. h ! i) (hs[t := (hs ! t)[k := hs ! t ! k + 1]])
      = (map (\<lambda>h. h ! i) hs)[t := (hs ! t)[k := hs ! t ! k + 1] ! i]"
    by (simp add: map_update)
  then show ?thesis
    using assms by (simp add: col_sum_def sum_list_update_int nth_list_update)
qed

lemma shape_bump:
  "map length (hs[t := (hs ! t)[k := v]]) = map length hs"
  by (cases "t < length hs") (simp_all add: map_update list_update_same_conv list_update_beyond)

lemma pixel_body_Some:
  assumes "y < length s" "x < length (s ! y)" "tid < length h"
    and n: "n = escape_value ops maxIter width height x_min x_max y_min y_max x y"
    and "0 \<le> n" "nat n < length (h ! tid)"
  shows "pixel_body ops maxIter width height x_min x_max y_min y_max tid y x (s, h)
       = Some (s[y := (s ! y)[x := n]], h[tid := (h ! tid)[nat n := h ! tid ! nat n + 1]])"
  using assms(1,2,3,5,6) unfolding pixel_body_def n[symmetric]
  by (simp add: vec_get_def vec_set_def vec_get_int_def vec_set_int_def Let_def)

lemma row_body_Some:
  assumes y: "y < length s0" and w: "length (s0 ! y) = nat width"
    and t: "tid < length h0" and m: "0 \<le> maxIter" and l: "nat maxIter < length (h0 ! tid)"
  shows "\<exists>s h. row_body ops maxIter width height x_min x_max y_min y_max (tid, y) (s0, h0) = Some (s, h) \<and>
           s = s0[y := map (\<lambda>x. escape_value ops maxIter width height x_min x_max y_min y_max x y) [0..<nat width]] \<and>
           map length h = map length h0 \<and>
           (\<forall>k. col_sum h k = col_sum h0 k
                  + int (row_count ops maxIter width height x_min x_max y_min y_max y (nat width) k))"
proof -
  define v where "v x = escape_value ops maxIter width height x_min x_max y_min y_max x y" for x
  define Q where "Q i sh \<longleftrightarrow>
      length (fst sh) = length s0 \<and> length (fst sh ! y) = nat width \<and>
      (\<forall>x<nat width. fst sh ! y ! x = (if x < i then v x else s0 ! y ! x)) \<and>
      (\<forall>y'. y' \<noteq> y \<longrightarrow> fst sh ! y' = s0 ! y') \<and>
      map length (snd sh) = map length h0 \<and>
      (\<forall>k. col_sum (snd sh) k = col_sum h0 k + int (length (filter (\<lambda>x. v x = int k) [0..<i])))"
    for i and sh :: "field \<times> hists"
  have init: "Q 0 (s0, h0)"
    using w by (simp add: Q_def)
  have step: "\<exists>sh'. pixel_body ops maxIter width height x_min x_max y_min y_max tid y i sh = Some sh' \<and> Q (Suc i) sh'"
    if i: "i < nat width" and q: "Q i sh" for i sh
  proof -
    obtain s h where sh: "sh = (s, h)" by (cases sh)
    from q have q1: "length s = length s0" "length (s ! y) = nat width"
      "\<forall>x<nat width. s ! y ! x = (if x < i then v x else s0 ! y ! x)"
      "\<forall>y'. y' \<noteq> y \<longrightarrow> s ! y' = s0 ! y'"
      "map length h = map length h0"
      "\<forall>k. col_sum h k = col_sum h0 k + int (length (filter (\<lambda>x. v x = int k) [0..<i]))"
      by (simp_all add: Q_def sh)
    have lh: "length h = length h0" using q1(5) by (metis length_map)
    have lht: "length (h ! tid) = length (h0 ! tid)"
      using q1(5) t lh by (metis nth_map)
    have vr: "0 \<le> v i" "v i \<le> maxIter"
      using escape_value_range[OF m] by (simp_all add: v_def)
    then have vi: "nat (v i) < length (h ! tid)" using l lht by linarith
    have ys: "y < length s" using y q1(1) by simp
    have xs: "i < length (s ! y)" using i q1(2) by simp
    have tl: "tid < length h" using t lh by simp
    let ?s' = "s[y := (s ! y)[i := v i]]"
    let ?h' = "h[tid := (h ! tid)[nat (v i) := h ! tid ! nat (v i) + 1]]"
    have run: "pixel_body ops maxIter width height x_min x_max y_min y_max tid y i sh = Some (?s', ?h')"
      unfolding sh by (rule pixel_body_Some[OF ys xs tl _ vr(1) vi]) (simp add: v_def)
    have "col_sum ?h' k = col_sum h0 k + int (length (filter (\<lambda>x. v x = int k) [0..<Suc i]))" for k
      using col_sum_bump[OF tl vi, of k] q1(6) vr(1) by auto
    moreover have "map length ?h' = map length h0"
      using q1(5) by (simp add: shape_bump)
    moreover have "\<forall>x<nat width. ?s' ! y ! x = (if x < Suc i then v x else s0 ! y ! x)"
      using ys xs q1(3) by (auto simp: nth_list_update less_Suc_eq)
    moreover have "\<forall>y'. y' \<noteq> y \<longrightarrow> ?s' ! y' = s0 ! y'"
      using q1(4) by simp
    moreover have "length ?s' = length s0" "length (?s' ! y) = nat width"
      using q1(1,2) ys by simp_all
    ultimately have "Q (Suc i) (?s', ?h')"
      unfolding Q_def by simp
    with run show ?thesis by blast
  qed
  have "\<exists>sh. for_each (pixel_body ops maxIter width height x_min x_max y_min y_max tid y) [0..<nat width] (s0, h0) = Some sh
     \<and> Q (nat width) sh"
    by (rule for_each_upt_total[where Q = Q]) (rule init, rule step)
  then obtain sh where sh: "for_each (pixel_body ops maxIter width height x_min x_max y_min y_max tid y) [0..<nat width] (s0, h0) = Some sh"
    "Q (nat width) sh" by blast
  obtain s h where [simp]: "sh = (s, h)" by (cases sh)
  from sh(2) have q1: "length s = length s0" "length (s ! y) = nat width"
      "\<forall>x<nat width. s ! y ! x = v x"
      "\<forall>y'. y' \<noteq> y \<longrightarrow> s ! y' = s0 ! y'"
      "map length h = map length h0"
      "\<forall>k. col_sum h k = col_sum h0 k + int (length (filter (\<lambda>x. v x = int k) [0..<nat width]))"
    by (simp_all add: Q_def)
  have "s ! y = map v [0..<nat width]"
    using q1(2,3) by (intro nth_equalityI) simp_all
  then have "s = s0[y := map v [0..<nat width]]"
    using q1(1,4) y by (intro nth_equalityI) (auto simp: nth_list_update)
  moreover have "v = (\<lambda>x. escape_value ops maxIter width height x_min x_max y_min y_max x y)"
    by (rule ext) (simp add: v_def)
  ultimately show ?thesis
    using sh(1) q1(5,6) by (simp add: row_body_def row_count_def)
qed

lemma computeEscapeValues_Some:
  assumes d1: "length s0 = nat height" and d2: "\<forall>r \<in> set s0. length r = nat width"
    and h1: "length h0 = nThreads" and h2: "\<forall>h \<in> set h0. nat maxIter < length h"
    and m: "0 \<le> maxIter" and ok: "schedule_ok nThreads height sched"
  shows "\<exists>s h. computeEscapeValues ops s0 h0 maxIter width height x_min x_max y_min y_max sched = Some (s, h) \<and>
           s = map (\<lambda>y. map (\<lambda>x. escape_value ops maxIter width height x_min x_max y_min y_max x y)
                     [0..<nat width]) [0..<nat height] \<and>
           map length h = map length h0 \<and>
           (\<forall>k. col_sum h k = col_sum h0 k
                  + int (\<Sum>y\<leftarrow>[0..<nat height].
                       row_count ops maxIter width height x_min x_max y_min y_max y (nat width) k))"
proof -
  define rowv where "rowv y = map (\<lambda>x. escape_value ops maxIter width height x_min x_max y_min y_max x y) [0..<nat width]" for y
  define rc where "rc y k = row_count ops maxIter width height x_min x_max y_min y_max y (nat width) k" for y k
  define Q where "Q rs sh \<longleftrightarrow>
      length (fst sh) = length s0 \<and>
      (\<forall>y<length s0. fst sh ! y = (if y \<in> snd ` set rs then rowv y else s0 ! y)) \<and>
      map length (snd sh) = map length h0 \<and>
      (\<forall>k. col_sum (snd sh) k = col_sum h0 k + int (\<Sum>p\<leftarrow>rs. rc (snd p) k))"
    for rs :: "(nat \<times> nat) list" and sh :: "field \<times> hists"
  have init: "Q [] (s0, h0)" by (simp add: Q_def)
  have step: "\<exists>sh'. row_body ops maxIter width height x_min x_max y_min y_max a sh = Some sh' \<and> Q (ys @ [a]) sh'"
    if split: "sched = ys @ a # zs" and q: "Q ys sh" for ys a zs sh
  proof -
    obtain s h where sh: "sh = (s, h)" by (cases sh)
    obtain tid y where a: "a = (tid, y)" by (cases a)
    from q have q1: "length s = length s0"
      "\<forall>y<length s0. s ! y = (if y \<in> snd ` set ys then rowv y else s0 ! y)"
      "map length h = map length h0"
      "\<forall>k. col_sum h k = col_sum h0 k + int (\<Sum>p\<leftarrow>ys. rc (snd p) k)"
      by (simp_all add: Q_def sh)
    have mem: "(tid, y) \<in> set sched" using split a by simp
    then have "y \<in> set (map snd sched)" by force
    then have yH: "y < nat height" using ok by (simp add: schedule_ok_def)
    have tT: "tid < nThreads" using ok mem by (auto simp: schedule_ok_def)
    have ys: "y < length s" using yH d1 q1(1) by simp
    have "length (rowv y') = nat width" for y' by (simp add: rowv_def)
    moreover have "length (s0 ! y) = nat width" using d2 yH d1 by simp
    ultimately have w: "length (s ! y) = nat width" using q1(2) yH d1 by simp
    have lh: "length h = length h0" using q1(3) by (metis length_map)
    have tl: "tid < length h" using tT h1 lh by simp
    have "length (h ! tid) = length (h0 ! tid)" using q1(3) tl lh by (metis nth_map)
    moreover have "nat maxIter < length (h0 ! tid)" using h2 tT h1 by simp
    ultimately have l: "nat maxIter < length (h ! tid)" by simp
    from row_body_Some[OF ys w tl m l, of ops height x_min x_max y_min y_max]
    obtain s' h' where r: "row_body ops maxIter width height x_min x_max y_min y_max (tid, y) (s, h) = Some (s', h')"
      "s' = s[y := rowv y]" "map length h' = map length h"
      "\<forall>k. col_sum h' k = col_sum h k + int (rc y k)"
      unfolding rowv_def rc_def by blast
    have "\<forall>y'<length s0. s' ! y' = (if y' \<in> snd ` set (ys @ [a]) then rowv y' else s0 ! y')"
      using r(2) q1(1,2) ys a by (auto simp: nth_list_update)
    moreover have "\<forall>k. col_sum h' k = col_sum h0 k + int (\<Sum>p\<leftarrow>(ys @ [a]). rc (snd p) k)"
      using r(4) q1(4) a by simp
    ultimately have "Q (ys @ [a]) (s', h')"
      using r(2,3) q1(1,3) by (simp add: Q_def)
    with r(1) show ?thesis unfolding sh a by blast
  qed
  have "\<exists>sh. for_each (row_body ops maxIter width height x_min x_max y_min y_max) sched (s0, h0) = Some sh
          \<and> Q sched sh"
    by (rule for_each_list_total[where Q = Q]) (rule init, rule step)
  then obtain sh where run: "for_each (row_body ops maxIter width height x_min x_max y_min y_max) sched (s0, h0) = Some sh"
    and qf: "Q sched sh" by blast
  obtain s h where [simp]: "sh = (s, h)" by (cases sh)
  from qf have q1: "length s = length s0"
      "\<forall>y<length s0. s ! y = (if y \<in> snd ` set sched then rowv y else s0 ! y)"
      "map length h = map length h0"
      "\<forall>k. col_sum h k = col_sum h0 k + int (\<Sum>p\<leftarrow>sched. rc (snd p) k)"
    by (simp_all add: Q_def)
  have all: "snd ` set sched = {0..<nat height}" and dist: "distinct (map snd sched)"
    using ok by (simp_all add: schedule_ok_def)
  have "s = map rowv [0..<nat height]"
    using q1(1,2) d1 all by (intro nth_equalityI) simp_all
  moreover have "(\<Sum>p\<leftarrow>sched. rc (snd p) k) = (\<Sum>y\<leftarrow>[0..<nat height]. rc y k)" for k
  proof -
    have "(\<Sum>p\<leftarrow>sched. rc (snd p) k) = (\<Sum>y\<leftarrow>map snd sched. rc y k)"
      by (simp add: comp_def)
    also have "\<dots> = (\<Sum>y\<in>set (map snd sched). rc y k)"
      by (rule sum_list_distinct_conv_sum_set[OF dist])
    also have "\<dots> = (\<Sum>y\<in>{0..<nat height}. rc y k)"
      using all by simp
    also have "\<dots> = (\<Sum>y\<leftarrow>[0..<nat height]. rc y k)"
      by (simp add: interv_sum_list_conv_sum_set_nat)
    finally show ?thesis .
  qed
  moreover have "rowv = (\<lambda>y. map (\<lambda>x. escape_value ops maxIter width height x_min x_max y_min y_max x y) [0..<nat width])"
    by (rule ext) (simp add: rowv_def)
  moreover have "rc = (\<lambda>y k. row_count ops maxIter width height x_min x_max y_min y_max y (nat width) k)"
    by (intro ext) (simp add: rc_def)
  ultimately show ?thesis
    using run q1(3,4) by (simp add: computeEscapeValues_def)
qed

section \<open>The merged histogram\<close>

lemma hist_row_Some:
  assumes t: "t < length hs" and l: "L \<le> length (hs ! t)" and h: "length hist = L"
  shows "for_each (hist_body hs t) [0..<L] hist = Some (map (\<lambda>i. hist ! i + hs ! t ! i) [0..<L])"
proof -
  define Q where "Q i h \<longleftrightarrow> length h = L \<and> (\<forall>j<L. h ! j = (if j < i then hist ! j + hs ! t ! j else hist ! j))"
    for i and h :: "int list"
  have init: "Q 0 hist" using h by (simp add: Q_def)
  have step: "\<exists>h'. hist_body hs t i h = Some h' \<and> Q (Suc i) h'" if "i < L" "Q i h" for i h
    using that t l
    by (auto simp: Q_def hist_body_def vec_get_def vec_set_def nth_list_update less_Suc_eq)
  have "\<exists>h'. for_each (hist_body hs t) [0..<L] hist = Some h' \<and> Q L h'"
    by (rule for_each_upt_total[where Q = Q]) (rule init, rule step)
  then obtain h' where r: "for_each (hist_body hs t) [0..<L] hist = Some h'" "Q L h'" by blast
  from r(2) have "h' = map (\<lambda>i. hist ! i + hs ! t ! i) [0..<L]"
    by (intro nth_equalityI) (simp_all add: Q_def)
  with r(1) show ?thesis by simp
qed

lemma col_sum_take_Suc:
  "t < length hs \<Longrightarrow> col_sum (take (Suc t) hs) j = col_sum (take t hs) j + hs ! t ! j"
  by (simp add: col_sum_def take_Suc_conv_app_nth)

lemma computeHistogram_Some:
  assumes m: "- 1 \<le> maxIter" and l: "\<forall>h \<in> set hs. nat (maxIter + 1) \<le> length h"
  shows "computeHistogram hs maxIter = Some (map (col_sum hs) [0..<nat (maxIter + 1)])"
proof -
  define L where "L = nat (maxIter + 1)"
  define Q where "Q t h \<longleftrightarrow> length h = L \<and> (\<forall>j<L. h ! j = col_sum (take t hs) j)"
    for t and h :: "int list"
  have init: "Q 0 (replicate L 0)" by (simp add: Q_def col_sum_def)
  have step: "\<exists>h'. for_each (hist_body hs t) [0..<L] h = Some h' \<and> Q (Suc t) h'"
    if t: "t < length hs" and q: "Q t h" for t h
  proof -
    have "L \<le> length (hs ! t)" using l t by (simp add: L_def)
    from hist_row_Some[OF t this, of h] q
    have "for_each (hist_body hs t) [0..<L] h = Some (map (\<lambda>i. h ! i + hs ! t ! i) [0..<L])"
      by (simp add: Q_def)
    moreover have "Q (Suc t) (map (\<lambda>i. h ! i + hs ! t ! i) [0..<L])"
      using q t by (simp add: Q_def col_sum_take_Suc)
    ultimately show ?thesis by blast
  qed
  have "\<exists>h'. for_each (\<lambda>t. for_each (hist_body hs t) [0..<L]) [0..<length hs] (replicate L 0) = Some h'
           \<and> Q (length hs) h'"
    by (rule for_each_upt_total[where Q = Q]) (rule init, rule step)
  then obtain h' where r: "for_each (\<lambda>t. for_each (hist_body hs t) [0..<L]) [0..<length hs] (replicate L 0) = Some h'"
    "Q (length hs) h'" by blast
  from r(2) have "h' = map (col_sum hs) [0..<L]"
    by (intro nth_equalityI) (simp_all add: Q_def)
  with r(1) m show ?thesis
    by (simp add: computeHistogram_def vec_make_def L_def)
qed

section \<open>The histogram of a frame\<close>

lemma count_list_map_filter:
  "count_list (map f xs) a = length (filter (\<lambda>x. f x = a) xs)"
  by (induction xs) auto

lemma count_partition:
  assumes "\<forall>x \<in> set xs. 0 \<le> f x \<and> f x < int L"
  shows "(\<Sum>i\<leftarrow>[0..<L]. length (filter (\<lambda>x. f x = int i) xs)) = length xs"
  using assms
proof (induction xs)
  case Nil
  then show ?case by simp
next
  case (Cons a xs)
  have one: "(\<Sum>i\<leftarrow>[0..<L]. if f a = int i then 1 else 0) = (1::nat)"
  proof -
    have "(\<Sum>i\<leftarrow>[0..<L]. if f a = int i then 1 else 0) = (\<Sum>i\<in>{0..<L}. if i = nat (f a) then 1 else (0::nat))"
      unfolding interv_sum_list_conv_sum_set_nat using Cons.prems
      by (intro sum.cong) auto
    also have "\<dots> = 1"
      using Cons.prems by (simp add: nat_less_iff)
    finally show ?thesis .
  qed
  have "(\<Sum>i\<leftarrow>[0..<L]. length (filter (\<lambda>x. f x = int i) (a # xs)))
      = (\<Sum>i\<leftarrow>[0..<L]. (if f a = int i then 1 else 0) + length (filter (\<lambda>x. f x = int i) xs))"
    by (intro arg_cong[where f = sum_list] map_cong) auto
  also have "\<dots> = (\<Sum>i\<leftarrow>[0..<L]. if f a = int i then 1 else 0)
                  + (\<Sum>i\<leftarrow>[0..<L]. length (filter (\<lambda>x. f x = int i) xs))"
    by (simp add: sum_list_addf)
  also have "\<dots> = 1 + length xs"
    using one Cons by simp
  finally show ?case by simp
qed

lemma col_sum_replicate:
  "k < L \<Longrightarrow> col_sum (replicate T (replicate L 0)) k = 0"
  by (simp add: col_sum_def sum_list_replicate)

lemma row_count_total:
  assumes "0 \<le> maxIter"
  shows "(\<Sum>i\<leftarrow>[0..<nat (maxIter + 1)]. row_count ops maxIter width height x_min x_max y_min y_max y w i) = w"
proof -
  have "\<forall>x \<in> set [0..<w]. 0 \<le> escape_value ops maxIter width height x_min x_max y_min y_max x y
      \<and> escape_value ops maxIter width height x_min x_max y_min y_max x y < int (nat (maxIter + 1))"
    using escape_value_range[OF assms, of ops width height x_min x_max y_min y_max _ y] assms
    by (simp add: less_le_not_le [symmetric]) 
  from count_partition[OF this] show ?thesis
    by (simp add: row_count_def)
qed

lemma frame_histogram_Some:
  assumes ok: "schedule_ok nThreads height sched" and m: "0 \<le> maxIter"
    and w: "0 \<le> width" and h: "0 \<le> height"
  shows "frame_histogram ops nThreads sched width height maxIter (x_min, x_max, y_min, y_max)
           = Some (map (\<lambda>y. map (\<lambda>x. escape_value ops maxIter width height x_min x_max y_min y_max x y)
                     [0..<nat width]) [0..<nat height],
                   map (\<lambda>k. int (\<Sum>y\<leftarrow>[0..<nat height].
                       row_count ops maxIter width height x_min x_max y_min y_max y (nat width) k))
                     [0..<nat (maxIter + 1)])"
proof -
  define L where "L = nat (maxIter + 1)"
  define s0 :: field where "s0 = replicate (nat height) (replicate (nat width) 0)"
  define h0 :: hists where "h0 = replicate nThreads (replicate L 0)"
  have d: "length s0 = nat height" "\<forall>r \<in> set s0. length r = nat width"
    "length h0 = nThreads" "\<forall>h \<in> set h0. nat maxIter < length h"
    using m by (auto simp: s0_def h0_def L_def)
  from computeEscapeValues_Some[OF d m ok, of ops x_min x_max y_min y_max]
  obtain s hs where run: "computeEscapeValues ops s0 h0 maxIter width height x_min x_max y_min y_max sched = Some (s, hs)"
    and s: "s = map (\<lambda>y. map (\<lambda>x. escape_value ops maxIter width height x_min x_max y_min y_max x y)
                     [0..<nat width]) [0..<nat height]"
    and shape: "map length hs = map length h0"
    and cs: "\<forall>k. col_sum hs k = col_sum h0 k
                  + int (\<Sum>y\<leftarrow>[0..<nat height].
                       row_count ops maxIter width height x_min x_max y_min y_max y (nat width) k)"
    by blast
  have "set (map length hs) \<subseteq> {L}"
    unfolding shape by (auto simp: h0_def)
  then have len: "\<forall>h \<in> set hs. nat (maxIter + 1) \<le> length h"
    by (auto simp: L_def)
  have "computeHistogram hs maxIter = Some (map (col_sum hs) [0..<nat (maxIter + 1)])"
    by (rule computeHistogram_Some[OF _ len]) (use m in simp)
  moreover have "map (col_sum hs) [0..<nat (maxIter + 1)]
      = map (\<lambda>k. int (\<Sum>y\<leftarrow>[0..<nat height].
                       row_count ops maxIter width height x_min x_max y_min y_max y (nat width) k))
                     [0..<nat (maxIter + 1)]"
    using cs by (simp add: h0_def col_sum_replicate L_def)
  ultimately show ?thesis
    using run w h m unfolding s[symmetric]
    by (simp add: frame_histogram_def vec_make_def s0_def h0_def L_def)
qed

lemma pixels_with_rows:
  "pixels_with (map (\<lambda>y. map (\<lambda>x. escape_value ops maxIter width height x_min x_max y_min y_max x y)
                     [0..<w]) [0..<h]) (int k)
   = (\<Sum>y\<leftarrow>[0..<h]. row_count ops maxIter width height x_min x_max y_min y_max y w k)"
  by (simp add: pixels_with_def row_count_def count_list_map_filter comp_def)

lemma sum_list_upt_swap:
  "(\<Sum>i\<leftarrow>[0..<a]. \<Sum>j\<leftarrow>[0..<b]. (f i j :: nat)) = (\<Sum>j\<leftarrow>[0..<b]. \<Sum>i\<leftarrow>[0..<a]. f i j)"
  unfolding interv_sum_list_conv_sum_set_nat by (rule sum.swap)

lemma sum_list_int: "(\<Sum>i\<leftarrow>xs. int (f i)) = int (\<Sum>i\<leftarrow>xs. f i)"
  by (induction xs) auto

text \<open>
  The frame of \<open>2 \<times> 2\<close> pixels over the window \<open>[-2, 2] \<times> [-2, 2]\<close> with \<open>maxIter = 3\<close>,
  computed by two threads. The points of the four pixels are \<open>-2 - 2i\<close>, \<open>-2i\<close>, \<open>-2\<close> and
  \<open>0\<close>, and every number of their orbits is a small integer, so no operation rounds. The
  comparison of the magnitude with \<open>2\<close> is the comparison of the squared magnitude with
  \<open>4\<close>.
\<close>

lemma cmod_le_2_iff: "cmod z \<le> 2 \<longleftrightarrow> (Re z)\<^sup>2 + (Im z)\<^sup>2 \<le> 4"
proof -
  have "cmod z \<le> 2 \<longleftrightarrow> sqrt ((Re z)\<^sup>2 + (Im z)\<^sup>2) \<le> sqrt (2\<^sup>2)"
    by (simp add: cmod_def)
  also have "\<dots> \<longleftrightarrow> (Re z)\<^sup>2 + (Im z)\<^sup>2 \<le> 2\<^sup>2"
    by (rule real_sqrt_le_iff)
  finally show ?thesis by simp
qed

lemma escape_value_example:
  "escape_value exact_ops 3 2 2 (- 2) 2 (- 2) 2 0 0 = 1"
  "escape_value exact_ops 3 2 2 (- 2) 2 (- 2) 2 1 0 = 2"
  "escape_value exact_ops 3 2 2 (- 2) 2 (- 2) 2 0 1 = 3"
  "escape_value exact_ops 3 2 2 (- 2) 2 (- 2) 2 1 1 = 3"
  by (simp_all add: escape_value_def pixel_c_def escape_while.simps cmod_le_2_iff
      exact_ops_def add_d_def sub_d_def mul_d_def div_d_def cadd_d_def
      complex_eq_iff power2_eq_square)

lemma frame_histogram_example:
  "frame_histogram exact_ops 2 [(1, 1), (0, 0)] 2 2 3 (- 2, 2, - 2, 2) = Some ([[1, 2], [3, 3]], [0, 1, 1, 2])"
proof -
  have ok: "schedule_ok 2 2 [(1, 1), (0, 0)]"
    by (auto simp: schedule_ok_def)
  have u2: "[0..<2] = [0, 1::nat]" "[0..<4] = [0, 1, 2, 3::nat]"
    by (simp_all add: upt_rec)
  have "map (\<lambda>y. map (\<lambda>x. escape_value exact_ops 3 2 2 (- 2) 2 (- 2) 2 x y) [0..<nat 2]) [0..<nat 2]
      = [[1, 2], [3, 3]]"
    by (simp add: u2 escape_value_example[unfolded One_nat_def])
  moreover have "map (\<lambda>k. int (\<Sum>y\<leftarrow>[0..<nat 2]. row_count exact_ops 3 2 2 (- 2) 2 (- 2) 2 y (nat 2) k))
      [0..<nat (3 + 1)] = [0, 1, 1, 2]"
    by (simp add: u2 row_count_def escape_value_example[unfolded One_nat_def])
  moreover have "frame_histogram exact_ops 2 [(1, 1), (0, 0)] 2 2 3 (- 2, 2, - 2, 2)
      = Some (map (\<lambda>y. map (\<lambda>x. escape_value exact_ops 3 2 2 (- 2) 2 (- 2) 2 x y) [0..<nat 2]) [0..<nat 2],
              map (\<lambda>k. int (\<Sum>y\<leftarrow>[0..<nat 2]. row_count exact_ops 3 2 2 (- 2) 2 (- 2) 2 y (nat 2) k))
                [0..<nat (3 + 1)])"
    by (rule frame_histogram_Some[OF ok]) simp_all
  ultimately show ?thesis by (simp only:)
qed

lemma frame_histogram_None:
  assumes m: "maxIter < 0" and w: "0 < width" and h: "0 < height"
    and ok: "schedule_ok nThreads height sched"
  shows "frame_histogram ops nThreads sched width height maxIter (x_min, x_max, y_min, y_max) = None"
proof (cases "maxIter + 1 < 0")
  case True
  then show ?thesis
    using w h by (simp add: frame_histogram_def vec_make_def)
next
  case False
  with m have m1: "maxIter = - 1" by simp
  have "0 \<in> set (map snd sched)"
    using ok h by (simp add: schedule_ok_def)
  then obtain tid y rest where sched: "sched = (tid, y) # rest"
    by (cases sched) auto
  have y: "y < nat height" and t: "tid < nThreads"
    using ok by (auto simp: schedule_ok_def sched)
  have first: "[0..<nat width] = 0 # [1..<nat width]"
    using w by (simp add: upt_conv_Cons)
  have "pixel_body ops maxIter width height x_min x_max y_min y_max tid y 0
          (replicate (nat height) (replicate (nat width) 0), replicate nThreads []) = None"
    using y t w
    by (simp add: pixel_body_def vec_get_def vec_set_def vec_get_int_def Let_def)
  then have "computeEscapeValues ops (replicate (nat height) (replicate (nat width) 0)) (replicate nThreads [])
      maxIter width height x_min x_max y_min y_max sched = None"
    by (simp add: computeEscapeValues_def sched row_body_def first)
  then show ?thesis
    using w h m1 by (simp add: frame_histogram_def vec_make_def)
qed

text \<open>
  Claim C1. In the escape field of a frame, computed for any schedule of the rows, the
  value \<open>n\<close> stored for the pixel \<open>(x, y)\<close> is the count of the loop started at \<open>z = 0\<close> for
  the point \<open>c\<close> of the pixel, all in doubles: \<open>0 \<le> n \<le> maxIter\<close>, the computed magnitude
  \<^verbatim>\<open>abs(z)\<close> is at most \<open>2\<close> before each of the \<open>n\<close> iterations \<open>z \<mapsto> z * z + c\<close>, and the loop
  stopped because \<open>n = maxIter\<close> or because the computed magnitude exceeds \<open>2\<close> after \<open>n\<close>
  iterations. The loop is a total function that ends after \<open>n \<le> maxIter\<close> iterations, and
  the field exists whenever \<open>maxIter\<close> and the dimensions are not negative.
\<close>

theorem escape_values_stored:
  assumes "schedule_ok nThreads height sched"
  shows "(\<forall>storeN hist.
            frame_histogram ops nThreads sched width height maxIter (x_min, x_max, y_min, y_max)
              = Some (storeN, hist) \<longrightarrow>
            (\<forall>y<nat height. \<forall>x<nat width.
               let c = pixel_c ops width height x_min x_max y_min y_max x y; n = storeN ! y ! x in
                 n = escape_while ops c maxIter 0 0 \<and> 0 \<le> n \<and> n \<le> maxIter \<and>
                 (\<forall>k<nat n. cabs_d ops (spec_orbit ops c k) \<le> 2) \<and>
                 (n < maxIter \<longrightarrow> 2 < cabs_d ops (spec_orbit ops c (nat n))))) \<and>
         (0 \<le> maxIter \<and> 0 \<le> width \<and> 0 \<le> height \<longrightarrow>
            (\<exists>storeN hist.
               frame_histogram ops nThreads sched width height maxIter (x_min, x_max, y_min, y_max)
                 = Some (storeN, hist)))"
proof (intro conjI allI impI)
  fix storeN hist y x
  assume run: "frame_histogram ops nThreads sched width height maxIter (x_min, x_max, y_min, y_max)
      = Some (storeN, hist)"
    and y: "y < nat height" and x: "x < nat width"
  have w: "0 < width" and h: "0 < height" using x y by simp_all
  have m: "0 \<le> maxIter"
  proof (rule ccontr)
    assume "\<not> 0 \<le> maxIter"
    then have "maxIter < 0" by simp
    from frame_histogram_None[OF this w h assms] run show False by simp
  qed
  have "frame_histogram ops nThreads sched width height maxIter (x_min, x_max, y_min, y_max)
      = Some (map (\<lambda>y. map (\<lambda>x. escape_value ops maxIter width height x_min x_max y_min y_max x y)
                     [0..<nat width]) [0..<nat height],
              map (\<lambda>k. int (\<Sum>y\<leftarrow>[0..<nat height].
                       row_count ops maxIter width height x_min x_max y_min y_max y (nat width) k))
                     [0..<nat (maxIter + 1)])"
    by (rule frame_histogram_Some[OF assms m]) (use w h in simp_all)
  with run have s: "storeN = map (\<lambda>y. map (\<lambda>x. escape_value ops maxIter width height x_min x_max y_min y_max x y)
                     [0..<nat width]) [0..<nat height]"
    by simp
  define c where "c = pixel_c ops width height x_min x_max y_min y_max x y"
  define n where "n = escape_while ops c maxIter 0 0"
  have sn: "storeN ! y ! x = n"
    using x y by (simp add: s escape_value_def n_def c_def)
  have b: "0 \<le> n" "n \<le> maxIter"
    using escape_while_bounds[of 0 maxIter ops c 0] m by (simp_all add: n_def)
  have "(\<forall>k. 0 \<le> k \<and> int k < n \<longrightarrow> cabs_d ops (spec_orbit ops c k) \<le> 2) \<and>
        (n < maxIter \<longrightarrow> 2 < cabs_d ops (spec_orbit ops c (nat n))) \<and> int 0 \<le> n"
    by (rule escape_while_orbit[of 0 ops c 0 "int 0" n maxIter]) (simp_all add: n_def)
  then have o: "\<forall>k<nat n. cabs_d ops (spec_orbit ops c k) \<le> 2" "n < maxIter \<longrightarrow> 2 < cabs_d ops (spec_orbit ops c (nat n))"
    by auto
  show "let c = pixel_c ops width height x_min x_max y_min y_max x y; n = storeN ! y ! x in
          n = escape_while ops c maxIter 0 0 \<and> 0 \<le> n \<and> n \<le> maxIter \<and>
          (\<forall>k<nat n. cabs_d ops (spec_orbit ops c k) \<le> 2) \<and>
          (n < maxIter \<longrightarrow> 2 < cabs_d ops (spec_orbit ops c (nat n)))"
    unfolding c_def[symmetric] sn Let_def using b o n_def by simp
next
  assume "0 \<le> maxIter \<and> 0 \<le> width \<and> 0 \<le> height"
  then show "\<exists>storeN hist.
      frame_histogram ops nThreads sched width height maxIter (x_min, x_max, y_min, y_max)
        = Some (storeN, hist)"
    using frame_histogram_Some[OF assms, of maxIter width ops x_min x_max y_min y_max] by simp
qed

theorem escape_values_stored_witness:
  "frame_histogram exact_ops 2 [(1, 1), (0, 0)] 2 2 3 (- 2, 2, - 2, 2) = Some ([[1, 2], [3, 3]], [0, 1, 1, 2]) \<and>
   [[1, 2], [3, 3]] ! 0 ! 1 = escape_while exact_ops (pixel_c exact_ops 2 2 (- 2) 2 (- 2) 2 1 0) 3 0 0 \<and>
   [[1, 2], [3, 3 :: int]] ! 0 ! 1 = 2 \<and>
   cabs_d exact_ops (spec_orbit exact_ops (pixel_c exact_ops 2 2 (- 2) 2 (- 2) 2 1 0) 1) \<le> 2 \<and>
   2 < cabs_d exact_ops (spec_orbit exact_ops (pixel_c exact_ops 2 2 (- 2) 2 (- 2) 2 1 0) 2)"
proof -
  have ok: "schedule_ok 2 2 [(1, 1), (0, 0)]"
    by (auto simp: schedule_ok_def)
  note t = escape_values_stored[OF ok, of exact_ops 2 3 "- 2" 2 "- 2" 2]
  from t frame_histogram_example have all: "\<forall>y<nat 2. \<forall>x<nat 2.
       let c = pixel_c exact_ops 2 2 (- 2) 2 (- 2) 2 x y; n = [[1, 2], [3, 3]] ! y ! x in
         n = escape_while exact_ops c 3 0 0 \<and> 0 \<le> n \<and> n \<le> 3 \<and>
         (\<forall>k<nat n. cabs_d exact_ops (spec_orbit exact_ops c k) \<le> 2) \<and>
         (n < 3 \<longrightarrow> 2 < cabs_d exact_ops (spec_orbit exact_ops c (nat n)))"
    by blast
  have n: "[[1, 2], [3, 3 :: int]] ! 0 ! 1 = 2" by simp
  from all[rule_format, of 0 1]
  have p: "2 = escape_while exact_ops (pixel_c exact_ops 2 2 (- 2) 2 (- 2) 2 1 0) 3 0 0"
    "\<forall>k<nat 2. cabs_d exact_ops (spec_orbit exact_ops (pixel_c exact_ops 2 2 (- 2) 2 (- 2) 2 1 0) k) \<le> 2"
    "2 < cabs_d exact_ops (spec_orbit exact_ops (pixel_c exact_ops 2 2 (- 2) 2 (- 2) 2 1 0) (nat 2))"
    unfolding Let_def n by simp_all
  from p(2)[rule_format, of 1] have "cabs_d exact_ops (spec_orbit exact_ops (pixel_c exact_ops 2 2 (- 2) 2 (- 2) 2 1 0) 1) \<le> 2"
    by simp
  with p(1,3) n frame_histogram_example show ?thesis by simp
qed

lemma frame_histogram_empty:
  assumes m: "maxIter = - 1" and w: "0 \<le> width" and h: "0 \<le> height"
    and e: "width = 0 \<or> height = 0" and ok: "schedule_ok nThreads height sched"
  shows "frame_histogram ops nThreads sched width height maxIter (x_min, x_max, y_min, y_max)
       = Some (replicate (nat height) (replicate (nat width) 0), [])"
proof -
  define s0 :: field where "s0 = replicate (nat height) (replicate (nat width) 0)"
  define h0 :: hists where "h0 = replicate nThreads []"
  have run: "for_each (row_body ops maxIter width height x_min x_max y_min y_max) sched st = Some st" for st
  proof (cases "height = 0")
    case True
    then have "sched = []" using ok by (simp add: schedule_ok_def)
    then show ?thesis by simp
  next
    case False
    with e have "width = 0" by simp
    then have "row_body ops maxIter width height x_min x_max y_min y_max p s = Some s" for p s
      by (cases p) (simp add: row_body_def)
    then show ?thesis by (induction sched) simp_all
  qed
  have "computeHistogram h0 maxIter = Some (map (col_sum h0) [0..<nat (maxIter + 1)])"
    by (rule computeHistogram_Some) (simp_all add: m)
  then have "computeHistogram h0 maxIter = Some []" by (simp add: m)
  then show ?thesis
    using w h m run by (simp add: frame_histogram_def vec_make_def computeEscapeValues_def s0_def h0_def)
qed

lemma pixels_with_empty:
  "width = 0 \<or> height = 0 \<Longrightarrow>
   pixels_with (replicate (nat height) (replicate (nat width) 0)) i = 0"
  by (auto simp: pixels_with_def)

text \<open>
  Claim C2. For every schedule of the rows, a frame of \<open>height\<close> rows and \<open>width\<close> columns
  has a merged histogram of length \<open>maxIter + 1\<close> whose entry at index \<open>i\<close> is the number of
  pixels of the escape field whose value is \<open>i\<close> and whose entries sum to
  \<open>width * height\<close>; no entry exceeds \<open>width * height\<close>. The field and the histogram exist
  whenever \<open>maxIter\<close> and the dimensions are not negative.
\<close>

theorem merged_histogram_counts:
  assumes "schedule_ok nThreads height sched"
  shows "(\<forall>storeN hist.
            frame_histogram ops nThreads sched width height maxIter (x_min, x_max, y_min, y_max)
              = Some (storeN, hist) \<longrightarrow>
            length storeN = nat height \<and> (\<forall>row \<in> set storeN. length row = nat width) \<and>
            int (length hist) = maxIter + 1 \<and>
            (\<forall>i<length hist. hist ! i = int (pixels_with storeN (int i))) \<and>
            sum_list hist = width * height \<and>
            (\<forall>i<length hist. 0 \<le> hist ! i \<and> hist ! i \<le> width * height)) \<and>
         (0 \<le> maxIter \<and> 0 \<le> width \<and> 0 \<le> height \<longrightarrow>
            (\<exists>storeN hist.
               frame_histogram ops nThreads sched width height maxIter (x_min, x_max, y_min, y_max)
                 = Some (storeN, hist)))"
proof (rule conjI, intro allI impI)
  fix storeN hist
  assume run: "frame_histogram ops nThreads sched width height maxIter (x_min, x_max, y_min, y_max)
      = Some (storeN, hist)"
  have w: "0 \<le> width" and h: "0 \<le> height" and m1: "- 1 \<le> maxIter"
    using run by (auto simp: frame_histogram_def vec_make_def split: if_splits Option.bind_splits)
  have main: "length storeN = nat height \<and> (\<forall>row \<in> set storeN. length row = nat width) \<and>
        int (length hist) = maxIter + 1 \<and>
        (\<forall>i<length hist. hist ! i = int (pixels_with storeN (int i))) \<and>
        sum_list hist = width * height"
  proof (cases "0 \<le> maxIter")
    case True
    define rc where "rc y k = row_count ops maxIter width height x_min x_max y_min y_max y (nat width) k" for y k
    have "frame_histogram ops nThreads sched width height maxIter (x_min, x_max, y_min, y_max)
      = Some (map (\<lambda>y. map (\<lambda>x. escape_value ops maxIter width height x_min x_max y_min y_max x y)
                     [0..<nat width]) [0..<nat height],
              map (\<lambda>k. int (\<Sum>y\<leftarrow>[0..<nat height]. rc y k)) [0..<nat (maxIter + 1)])"
      unfolding rc_def by (rule frame_histogram_Some[OF assms True w h])
    with run have s: "storeN = map (\<lambda>y. map (\<lambda>x. escape_value ops maxIter width height x_min x_max y_min y_max x y)
                     [0..<nat width]) [0..<nat height]"
      and hi: "hist = map (\<lambda>k. int (\<Sum>y\<leftarrow>[0..<nat height]. rc y k)) [0..<nat (maxIter + 1)]"
      by simp_all
    have dims: "length storeN = nat height" "\<forall>row \<in> set storeN. length row = nat width"
      by (auto simp: s)
    have len: "int (length hist) = maxIter + 1"
      using True by (simp add: hi)
    have cnt: "hist ! i = int (pixels_with storeN (int i))" if "i < length hist" for i
      using that by (simp add: hi s pixels_with_rows rc_def)
    have "sum_list hist = int (\<Sum>k\<leftarrow>[0..<nat (maxIter + 1)]. \<Sum>y\<leftarrow>[0..<nat height]. rc y k)"
      by (simp add: hi comp_def sum_list_int)
    also have "(\<Sum>k\<leftarrow>[0..<nat (maxIter + 1)]. \<Sum>y\<leftarrow>[0..<nat height]. rc y k)
        = (\<Sum>y\<leftarrow>[0..<nat height]. \<Sum>k\<leftarrow>[0..<nat (maxIter + 1)]. rc y k)"
      by (rule sum_list_upt_swap)
    also have "\<dots> = (\<Sum>y\<leftarrow>[0..<nat height]. nat width)"
      unfolding rc_def by (simp add: row_count_total[OF True])
    also have "\<dots> = nat height * nat width"
      by (simp add: sum_list_triv)
    finally have "sum_list hist = width * height"
      using w h by (simp add: nat_mult_distrib mult.commute)
    with dims len cnt show ?thesis by blast
  next
    case False
    with m1 have m: "maxIter = - 1" by simp
    have e: "width = 0 \<or> height = 0"
    proof (rule ccontr)
      assume "\<not> (width = 0 \<or> height = 0)"
      then have "0 < width" "0 < height" using w h by simp_all
      from frame_histogram_None[OF _ this assms, of maxIter] m run show False by simp
    qed
    from frame_histogram_empty[OF m w h e assms, of ops x_min x_max y_min y_max] run
    have "storeN = replicate (nat height) (replicate (nat width) 0)" "hist = []"
      by simp_all
    then show ?thesis
      using e m by auto
  qed
  have "0 \<le> hist ! i \<and> hist ! i \<le> width * height" if "i < length hist" for i
  proof -
    have nn: "0 \<le> v" if "v \<in> set hist" for v
      using that main by (auto simp: in_set_conv_nth)
    have "hist ! i \<le> sum_list hist"
      by (rule member_le_sum_list) (use that nn in auto)
    with nn[of "hist ! i"] that main show ?thesis by simp
  qed
  with main
  show "length storeN = nat height \<and> (\<forall>row \<in> set storeN. length row = nat width) \<and>
        int (length hist) = maxIter + 1 \<and>
        (\<forall>i<length hist. hist ! i = int (pixels_with storeN (int i))) \<and>
        sum_list hist = width * height \<and>
        (\<forall>i<length hist. 0 \<le> hist ! i \<and> hist ! i \<le> width * height)"
    by blast
next
  show "0 \<le> maxIter \<and> 0 \<le> width \<and> 0 \<le> height \<longrightarrow>
    (\<exists>storeN hist.
      frame_histogram ops nThreads sched width height maxIter (x_min, x_max, y_min, y_max)
        = Some (storeN, hist))"
    using frame_histogram_Some[OF assms, of maxIter width ops x_min x_max y_min y_max] by simp
qed

theorem merged_histogram_counts_witness:
  "frame_histogram exact_ops 2 [(1, 1), (0, 0)] 2 2 3 (- 2, 2, - 2, 2) = Some ([[1, 2], [3, 3]], [0, 1, 1, 2]) \<and>
   int (length [0, 1, 1, 2 :: int]) = 3 + 1 \<and>
   [0, 1, 1, 2] ! 3 = int (pixels_with [[1, 2], [3, 3]] (int 3)) \<and>
   sum_list [0, 1, 1, 2 :: int] = 2 * 2"
proof -
  have ok: "schedule_ok 2 2 [(1, 1), (0, 0)]"
    by (auto simp: schedule_ok_def)
  note t = merged_histogram_counts[OF ok, of exact_ops 2 3 "- 2" 2 "- 2" 2]
  from t frame_histogram_example have r: "int (length [0, 1, 1, 2 :: int]) = 3 + 1"
    "\<forall>i<length [0, 1, 1, 2 :: int]. [0, 1, 1, 2] ! i = int (pixels_with [[1, 2], [3, 3]] (int i))"
    "sum_list [0, 1, 1, 2 :: int] = 2 * 2"
    by blast+
  from r(2)[rule_format, of 3] have "[0, 1, 1, 2] ! 3 = int (pixels_with [[1, 2], [3, 3]] (int 3))"
    by simp
  with r(1,3) frame_histogram_example show ?thesis by blast
qed

text \<open>The histogram of a frame does not depend on the number of threads or the schedule.\<close>

lemma frame_histogram_schedule_independent:
  assumes "schedule_ok k height sched1" and "schedule_ok m height sched2"
    and "0 \<le> maxIter" and "0 \<le> width" and "0 \<le> height"
  shows "frame_histogram ops k sched1 width height maxIter (x_min, x_max, y_min, y_max)
       = frame_histogram ops m sched2 width height maxIter (x_min, x_max, y_min, y_max)"
  by (simp add: frame_histogram_Some[OF assms(1,3,4,5)] frame_histogram_Some[OF assms(2,3,4,5)])

text \<open>
  Claim C3. \<^verbatim>\<open>computeHistogram\<close> sums the histograms of the threads index by index. Hence
  two families of \<open>k\<close> and of \<open>m\<close> histograms of length \<open>maxIter + 1\<close> that both split the
  pixel counts of one escape field, whatever \<open>k\<close> and \<open>m\<close> are and however the pixels were
  shared out, merge to the same histogram: the pixel counts of the field.
\<close>

theorem histogram_merge_partition_independent:
  assumes "0 \<le> maxIter"
    and "\<forall>h \<in> set hs1. int (length h) = maxIter + 1"
    and "\<forall>h \<in> set hs2. int (length h) = maxIter + 1"
    and "\<forall>i<nat (maxIter + 1). col_sum hs1 i = int (pixels_with storeN (int i))"
    and "\<forall>i<nat (maxIter + 1). col_sum hs2 i = int (pixels_with storeN (int i))"
  shows "computeHistogram hs1 maxIter = Some (map (col_sum hs1) [0..<nat (maxIter + 1)]) \<and>
         computeHistogram hs2 maxIter = Some (map (col_sum hs2) [0..<nat (maxIter + 1)]) \<and>
         computeHistogram hs1 maxIter = computeHistogram hs2 maxIter \<and>
         computeHistogram hs1 maxIter
           = Some (map (\<lambda>i. int (pixels_with storeN (int i))) [0..<nat (maxIter + 1)])"
proof -
  have l1: "\<forall>h \<in> set hs1. nat (maxIter + 1) \<le> length h"
    and l2: "\<forall>h \<in> set hs2. nat (maxIter + 1) \<le> length h"
    using assms(2,3) by auto
  have m: "- 1 \<le> maxIter" using assms(1) by simp
  have c1: "computeHistogram hs1 maxIter = Some (map (col_sum hs1) [0..<nat (maxIter + 1)])"
    by (rule computeHistogram_Some[OF m l1])
  have c2: "computeHistogram hs2 maxIter = Some (map (col_sum hs2) [0..<nat (maxIter + 1)])"
    by (rule computeHistogram_Some[OF m l2])
  have e1: "map (col_sum hs1) [0..<nat (maxIter + 1)]
      = map (\<lambda>i. int (pixels_with storeN (int i))) [0..<nat (maxIter + 1)]"
    using assms(4) by simp
  have e2: "map (col_sum hs2) [0..<nat (maxIter + 1)]
      = map (\<lambda>i. int (pixels_with storeN (int i))) [0..<nat (maxIter + 1)]"
    using assms(5) by simp
  show ?thesis
    using c1 c2 e1 e2 by simp
qed

theorem histogram_merge_partition_independent_witness:
  "computeHistogram [[1, 0], [0, 1]] 1 = Some (map (col_sum [[1, 0], [0, 1]]) [0..<nat (1 + 1)]) \<and>
   computeHistogram [[1, 1]] 1 = Some (map (col_sum [[1, 1]]) [0..<nat (1 + 1)]) \<and>
   computeHistogram [[1, 0], [0, 1]] 1 = computeHistogram [[1, 1]] 1 \<and>
   computeHistogram [[1, 0], [0, 1]] 1 = Some (map (\<lambda>i. int (pixels_with [[0, 1]] (int i))) [0..<nat (1 + 1)])"
proof -
  have two: "i < nat (1 + 1) \<longleftrightarrow> i = 0 \<or> i = 1" for i :: nat
    by auto
  show ?thesis
    by (rule histogram_merge_partition_independent)
      (simp_all add: two col_sum_def pixels_with_def)
qed

section \<open>The cumulative distribution\<close>

lemma sum_list_take_Suc:
  "i < length xs \<Longrightarrow> sum_list (take (Suc i) xs) = sum_list (take i xs) + (xs ! i :: int)"
  by (simp add: take_Suc_conv_app_nth)

lemma sum_list_take_prefix:
  "i < length xs \<Longrightarrow> sum_list (take (Suc i) xs) = (\<Sum>k\<le>i. (xs ! k :: int))"
proof (induction i)
  case 0
  then show ?case by (simp add: take_Suc_conv_app_nth)
next
  case (Suc i)
  then show ?case by (simp add: sum_list_take_Suc)
qed

lemma computeCDF_Some:
  assumes "totalPixels \<noteq> 0"
  shows "computeCDF ops hist totalPixels
       = Some (map (\<lambda>i. rnd ops (real_of_int (sum_list (take (Suc i) hist)) / real_of_int totalPixels))
            [0..<length hist])"
proof -
  define L where "L = length hist"
  define Q where "Q i ca \<longleftrightarrow> length (fst ca) = L \<and> snd ca = sum_list (take i hist) \<and>
      (\<forall>j<i. fst ca ! j = rnd ops (real_of_int (sum_list (take (Suc j) hist)) / real_of_int totalPixels))"
    for i and ca :: "real list \<times> int"
  have init: "Q 0 (replicate L 0, 0)" by (simp add: Q_def)
  have step: "\<exists>ca'. cdf_body ops hist totalPixels i ca = Some ca' \<and> Q (Suc i) ca'"
    if "i < L" "Q i ca" for i ca
  proof -
    obtain cdf accum where ca: "ca = (cdf, accum)" by (cases ca)
    from that have "cdf_body ops hist totalPixels i ca
        = Some (cdf[i := rnd ops (real_of_int (accum + hist ! i) / real_of_int totalPixels)], accum + hist ! i)"
      using assms
      by (simp add: ca cdf_body_def vec_get_def vec_set_def ddiv_def div_d_def Q_def L_def Let_def)
    moreover have "Q (Suc i) (cdf[i := rnd ops (real_of_int (accum + hist ! i) / real_of_int totalPixels)], accum + hist ! i)"
      using that by (auto simp: ca Q_def L_def sum_list_take_Suc nth_list_update less_Suc_eq)
    ultimately show ?thesis by blast
  qed
  have "\<exists>ca. for_each (cdf_body ops hist totalPixels) [0..<L] (replicate L 0, 0) = Some ca \<and> Q L ca"
    by (rule for_each_upt_total[where Q = Q]) (rule init, rule step)
  then obtain cdf accum where r: "for_each (cdf_body ops hist totalPixels) [0..<L] (replicate L 0, 0) = Some (cdf, accum)"
    and q: "Q L (cdf, accum)" by auto
  from q have "cdf = map (\<lambda>i. rnd ops (real_of_int (sum_list (take (Suc i) hist)) / real_of_int totalPixels)) [0..<L]"
    by (intro nth_equalityI) (simp_all add: Q_def)
  with r show ?thesis
    by (simp add: computeCDF_def vec_make_def L_def)
qed

lemma rnd_ok_exact: "rnd_ok exact_ops"
  by (simp add: rnd_ok_def exact_ops_def)

lemma rnd_okD:
  assumes "rnd_ok ops"
  shows "a \<le> b \<Longrightarrow> rnd ops a \<le> rnd ops b" "rnd ops 0 = 0" "rnd ops 1 = 1" "rnd ops 64 = 64"
  using assms by (simp_all add: rnd_ok_def)

lemma rnd_nonneg: "rnd_ok ops \<Longrightarrow> 0 \<le> a \<Longrightarrow> 0 \<le> rnd ops a"
  using rnd_okD(1)[of ops 0 a] rnd_okD(2)[of ops] by simp

text \<open>
  Claim C4. For a histogram of length \<open>maxIter + 1\<close> whose entries are counts and
  \<open>totalPixels > 0\<close>, \<^verbatim>\<open>computeCDF\<close> returns the list of length \<open>maxIter + 1\<close> with
  \<open>cdf[i] = (\<Sum>k\<le>i. hist[k]) / totalPixels\<close>, the quotient of doubles. When rounding keeps
  the order and the double \<open>1\<close>, the list is non-decreasing, and its last entry is \<open>1\<close>
  when the entries of the histogram sum to \<open>totalPixels\<close>.
\<close>

theorem cdf_cumulative:
  assumes "0 < totalPixels" and "int (length hist) = maxIter + 1" and "\<forall>h \<in> set hist. 0 \<le> h"
    and "rnd_ok ops"
  shows "\<exists>cdf. computeCDF ops hist totalPixels = Some cdf \<and> int (length cdf) = maxIter + 1 \<and>
           (\<forall>i<length hist.
              cdf ! i = rnd ops (real_of_int (\<Sum>k\<le>i. hist ! k) / real_of_int totalPixels)) \<and>
           (\<forall>i j. i \<le> j \<and> j < length hist \<longrightarrow> cdf ! i \<le> cdf ! j) \<and>
           (sum_list hist = totalPixels \<longrightarrow> cdf ! nat maxIter = 1)"
proof -
  define cdf where "cdf = map (\<lambda>i. rnd ops (real_of_int (sum_list (take (Suc i) hist)) / real_of_int totalPixels))
            [0..<length hist]"
  have run: "computeCDF ops hist totalPixels = Some cdf"
    unfolding cdf_def by (rule computeCDF_Some) (use assms(1) in simp)
  have len: "int (length cdf) = maxIter + 1"
    using assms(2) by (simp add: cdf_def)
  have val: "cdf ! i = rnd ops (real_of_int (\<Sum>k\<le>i. hist ! k) / real_of_int totalPixels)"
    if "i < length hist" for i
    using that by (simp add: cdf_def sum_list_take_prefix)
  have mono: "cdf ! i \<le> cdf ! j" if "i \<le> j" "j < length hist" for i j
  proof -
    have "(\<Sum>k\<le>i. hist ! k) \<le> (\<Sum>k\<le>j. hist ! k)"
    proof (rule sum_mono2)
      show "{..i} \<subseteq> {..j}" using that(1) by simp
      show "0 \<le> hist ! b" if "b \<in> {..j} - {..i}" for b
        using that \<open>j < length hist\<close> assms(3) by simp
    qed simp
    then have "real_of_int (\<Sum>k\<le>i. hist ! k) \<le> real_of_int (\<Sum>k\<le>j. hist ! k)"
      by (simp only: of_int_le_iff)
    moreover have "0 \<le> real_of_int totalPixels"
      using assms(1) by simp
    ultimately have "real_of_int (\<Sum>k\<le>i. hist ! k) / real_of_int totalPixels
        \<le> real_of_int (\<Sum>k\<le>j. hist ! k) / real_of_int totalPixels"
      by (rule divide_right_mono)
    then have "rnd ops (real_of_int (\<Sum>k\<le>i. hist ! k) / real_of_int totalPixels)
        \<le> rnd ops (real_of_int (\<Sum>k\<le>j. hist ! k) / real_of_int totalPixels)"
      by (rule rnd_okD(1)[OF assms(4)])
    then show ?thesis
      using that by (simp only: val[of i] val[of j] order_le_less_trans[of i j "length hist"])
  qed
  have last: "cdf ! nat maxIter = 1" if "sum_list hist = totalPixels"
  proof -
    have "hist \<noteq> []" using that assms(1) by auto
    then have "0 < length hist" by simp
    then have n: "nat maxIter < length hist" "Suc (nat maxIter) = length hist"
      using assms(2) by linarith+
    then show ?thesis
      using that assms(1) rnd_okD(3)[OF assms(4)] by (simp add: cdf_def)
  qed
  from run len val mono last show ?thesis by blast
qed

theorem cdf_cumulative_witness:
  "\<exists>cdf. computeCDF exact_ops [1, 0, 3] 4 = Some cdf \<and> int (length cdf) = 2 + 1 \<and>
     cdf ! 1 = rnd exact_ops (real_of_int (\<Sum>k\<le>1. [1, 0, 3] ! k) / real_of_int 4) \<and>
     cdf ! 1 = 1 / 4 \<and> cdf ! 0 \<le> cdf ! 2 \<and> cdf ! nat 2 = 1"
proof -
  from cdf_cumulative[of 4 "[1, 0, 3]" 2 exact_ops] rnd_ok_exact
  obtain cdf where r: "computeCDF exact_ops [1, 0, 3] 4 = Some cdf" "int (length cdf) = 2 + 1"
    "\<forall>i<length [1, 0, 3 :: int].
       cdf ! i = rnd exact_ops (real_of_int (\<Sum>k\<le>i. [1, 0, 3] ! k) / real_of_int 4)"
    "\<forall>i j. i \<le> j \<and> j < length [1, 0, 3 :: int] \<longrightarrow> cdf ! i \<le> cdf ! j"
    "sum_list [1, 0, 3] = (4 :: int) \<longrightarrow> cdf ! nat 2 = 1"
    by auto
  from r(3) have a: "cdf ! 1 = rnd exact_ops (real_of_int (\<Sum>k\<le>1. [1, 0, 3] ! k) / real_of_int 4)"
    by simp
  then have "cdf ! 1 = 1 / 4" by (simp add: exact_ops_def)
  moreover from r(4) have "cdf ! 0 \<le> cdf ! 2" by simp
  moreover from r(5) have "cdf ! nat 2 = 1" by simp
  ultimately show ?thesis using r(1,2) a by blast
qed

section \<open>The colours\<close>

lemma trunc_int_nonneg: "0 \<le> d \<Longrightarrow> trunc_int d = \<lfloor>d\<rfloor>"
  by (simp add: trunc_int_def)

lemma intensity_Some:
  "0 \<le> v \<Longrightarrow> intensity ops v = Some (trunc_int (mul_d ops 255 (pow_d ops v (1 / 2))))"
  by (simp add: intensity_def Let_def)

lemma colorize_body_SomeD:
  assumes "colorize_body ops cvt storeN cdf maxIter y x m = Some m'"
  shows "y < length storeN \<and> x < length (storeN ! y) \<and> y < length (data m) \<and> x < length (data m ! y) \<and>
         (\<exists>p. colorize_pixel ops cvt cdf maxIter (storeN ! y ! x) = Some p \<and>
              m' = m\<lparr>data := (data m)[y := (data m ! y)[x := p]]\<rparr>)"
  using assms
  by (auto simp: colorize_body_def mat_set_def vec_get_def vec_set_def
      split: if_splits Option.bind_splits)

lemma colorize_body_Some:
  assumes "y < length storeN" "x < length (storeN ! y)" "y < length (data m)" "x < length (data m ! y)"
    and "colorize_pixel ops cvt cdf maxIter (storeN ! y ! x) = Some p"
  shows "colorize_body ops cvt storeN cdf maxIter y x m
       = Some (m\<lparr>data := (data m)[y := (data m ! y)[x := p]]\<rparr>)"
  using assms by (simp add: colorize_body_def mat_set_def vec_get_def vec_set_def)

text \<open>
  Claim C5. A pixel whose escape value is \<open>maxIter\<close> is coloured \<open>(0, 0, 0)\<close>, whatever the
  CDF is: \<^verbatim>\<open>colorizeImage\<close> does not read the CDF for it, and whenever it returns an image,
  every such pixel of the image is \<open>(0, 0, 0)\<close>.
\<close>

theorem interior_pixels_black:
  "colorize_pixel ops cvt cdf maxIter maxIter = Some (0, 0, 0) \<and>
   (\<forall>img'. colorizeImage ops cvt img storeN cdf maxIter = Some img' \<longrightarrow>
      (\<forall>y<nat (rows img). \<forall>x<nat (cols img).
         storeN ! y ! x = maxIter \<longrightarrow> data img' ! y ! x = (0, 0, 0)))"
proof -
  define W where "W = nat (cols img)"
  define P where "P m y x \<longleftrightarrow> (storeN ! y ! x = maxIter \<longrightarrow> data m ! y ! x = (0, 0, 0))"
    for m :: Mat and y x
  have px: "colorize_pixel ops cvt cdf maxIter maxIter = Some (0, 0, 0)"
    by (simp add: colorize_pixel_def)
  have row: "(\<forall>y'<Suc y. \<forall>x<W. P m' y' x)"
    if run: "for_each (colorize_body ops cvt storeN cdf maxIter y) [0..<W] m = Some m'"
      and before: "\<forall>y'<y. \<forall>x<W. P m y' x" for y m m'
  proof -
    define Q where "Q i m \<longleftrightarrow> (\<forall>y'<y. \<forall>x<W. P m y' x) \<and> (\<forall>x<i. P m y x)" for i m
    have "Q W m'"
    proof (rule for_each_upt_partial[where Q = Q, OF run])
      show "Q 0 m" using before by (simp add: Q_def)
    next
      fix i s s'
      assume i: "i < W" and q: "Q i s"
        and b: "colorize_body ops cvt storeN cdf maxIter y i s = Some s'"
      from colorize_body_SomeD[OF b] obtain p where
        r: "y < length (data s)" "i < length (data s ! y)"
        "colorize_pixel ops cvt cdf maxIter (storeN ! y ! i) = Some p"
        "s' = s\<lparr>data := (data s)[y := (data s ! y)[i := p]]\<rparr>"
        by blast
      have "P s' y i"
        using r px by (auto simp: P_def)
      moreover have "P s' y' x" if "P s y' x" "y' \<noteq> y \<or> x \<noteq> i" for y' x
        using that r by (auto simp: P_def nth_list_update)
      ultimately show "Q (Suc i) s'"
        using q unfolding Q_def by (metis less_Suc_eq nat_neq_iff)
    qed
    then show ?thesis
      unfolding Q_def by (metis less_Suc_eq)
  qed
  have "\<forall>y<nat (rows img). \<forall>x<W. P img' y x"
    if run: "colorizeImage ops cvt img storeN cdf maxIter = Some img'" for img'
  proof -
    from run have run': "for_each (\<lambda>y. for_each (colorize_body ops cvt storeN cdf maxIter y) [0..<W])
        [0..<nat (rows img)] img = Some img'"
      by (simp add: colorizeImage_def W_def)
    show ?thesis
      by (rule for_each_upt_partial[where Q = "\<lambda>y m. \<forall>y'<y. \<forall>x<W. P m y' x", OF run'])
        (simp, rule row)
  qed
  with px show ?thesis
    unfolding P_def W_def by blast
qed

theorem interior_pixels_black_witness:
  "colorizeImage exact_ops (\<lambda>hsv. (7, 7, 7)) \<lparr>rows = 1, cols = 1, data = [[(5, 5, 5)]]\<rparr> [[2]] [] 2
     = Some \<lparr>rows = 1, cols = 1, data = [[(0, 0, 0)]]\<rparr> \<and>
   [[2 :: int]] ! 0 ! 0 = 2 \<and>
   data \<lparr>rows = 1, cols = 1, data = [[(0, 0, 0)]]\<rparr> ! 0 ! 0 = (0, 0, 0)"
proof -
  have run: "colorizeImage exact_ops (\<lambda>hsv. (7, 7, 7)) \<lparr>rows = 1, cols = 1, data = [[(5, 5, 5)]]\<rparr> [[2]] [] 2
     = Some \<lparr>rows = 1, cols = 1, data = [[(0, 0, 0)]]\<rparr>"
    by (simp add: colorizeImage_def colorize_body_def colorize_pixel_def mat_set_def
        vec_get_def vec_set_def)
  from interior_pixels_black[of exact_ops "\<lambda>hsv. (7, 7, 7)" "[]" 2
      "\<lparr>rows = 1, cols = 1, data = [[(5, 5, 5)]]\<rparr>" "[[2]]"] run
  have "data \<lparr>rows = 1, cols = 1, data = [[(0, 0, 0)]]\<rparr> ! 0 ! 0 = (0, 0, 0)"
    by simp
  with run show ?thesis by simp
qed

text \<open>
  Claim C6, as amended. For a pixel \<open>(x, y)\<close> whose escape value \<open>n\<close> is not \<open>maxIter\<close>, with
  \<open>v = cdf[n] \<ge> 0\<close>, the colorizer computes \<open>vGamma = pow(v, 0.5)\<close> and the intensity
  \<open>V = int(255 * vGamma)\<close>, in doubles: the product is truncated toward zero, which is
  its floor when it is not negative, and it is not rounded to the nearest integer. With
  the hue \<open>H = 110\<close> and the saturation \<open>S = 255\<close> the pixel of the image becomes the
  OpenCV conversion of \<open>(H, S, V)\<close>.
\<close>

theorem exterior_pixel_colour:
  assumes "y < length storeN" and "x < length (storeN ! y)"
    and "y < length (data img)" and "x < length (data img ! y)"
    and "n = storeN ! y ! x" and "n \<noteq> maxIter"
    and "0 \<le> n" and "nat n < length cdf" and "0 \<le> cdf ! nat n"
    and "V = trunc_int (mul_d ops 255 (pow_d ops (cdf ! nat n) (1 / 2)))"
  shows "intensity ops (cdf ! nat n) = Some V \<and>
         (0 \<le> mul_d ops 255 (pow_d ops (cdf ! nat n) (1 / 2)) \<longrightarrow>
            V = \<lfloor>mul_d ops 255 (pow_d ops (cdf ! nat n) (1 / 2))\<rfloor>) \<and>
         colorize_pixel ops cvt cdf maxIter n = Some (cvt (110, 255, V)) \<and>
         colorize_body ops cvt storeN cdf maxIter y x img
           = Some (img\<lparr>data := (data img)[y := (data img ! y)[x := cvt (110, 255, V)]]\<rparr>)"
proof -
  have i: "intensity ops (cdf ! nat n) = Some V"
    unfolding assms(10) using assms(9) by (rule intensity_Some)
  have f: "V = \<lfloor>mul_d ops 255 (pow_d ops (cdf ! nat n) (1 / 2))\<rfloor>"
    if "0 \<le> mul_d ops 255 (pow_d ops (cdf ! nat n) (1 / 2))"
    unfolding assms(10) using that by (rule trunc_int_nonneg)
  have p: "colorize_pixel ops cvt cdf maxIter n = Some (cvt (110, 255, V))"
    using assms(6,7,8) i by (simp add: colorize_pixel_def vec_get_int_def vec_get_def)
  have "colorize_body ops cvt storeN cdf maxIter y x img
      = Some (img\<lparr>data := (data img)[y := (data img ! y)[x := cvt (110, 255, V)]]\<rparr>)"
    by (rule colorize_body_Some[OF assms(1-4)]) (use p assms(5) in simp)
  with i f p show ?thesis by blast
qed

lemma powr_sixteenth: "(1 / 16 :: real) powr (1 / 2) = 1 / 4"
proof -
  have "sqrt (1 / 16) = sqrt ((1 / 4)\<^sup>2)" by (simp add: power2_eq_square)
  also have "\<dots> = \<bar>1 / 4\<bar>" by (rule real_sqrt_abs)
  finally have "sqrt (1 / 16) = 1 / 4" by simp
  then show ?thesis by (simp add: powr_half_sqrt)
qed

lemma product_sixteenth: "mul_d exact_ops 255 (pow_d exact_ops (1 / 16) (1 / 2)) = 255 / 4"
  by (simp add: mul_d_def exact_ops_def powr_sixteenth)

theorem exterior_pixel_colour_witness:
  "intensity exact_ops ([0, 1 / 16, 1] ! nat 1) = Some 63 \<and>
   (63 :: int) = \<lfloor>mul_d exact_ops 255 (pow_d exact_ops ([0, 1 / 16, 1] ! nat 1) (1 / 2))\<rfloor> \<and>
   colorize_pixel exact_ops (\<lambda>hsv. (7, 7, 7)) [0, 1 / 16, 1] 2 1 = Some (7, 7, 7) \<and>
   colorize_body exact_ops (\<lambda>hsv. (7, 7, 7)) [[1]] [0, 1 / 16, 1] 2 0 0
       \<lparr>rows = 1, cols = 1, data = [[(5, 5, 5)]]\<rparr>
     = Some \<lparr>rows = 1, cols = 1, data = [[(7, 7, 7)]]\<rparr>"
proof -
  have v: "(63 :: int) = trunc_int (mul_d exact_ops 255 (pow_d exact_ops ([0, 1 / 16, 1] ! nat 1) (1 / 2)))"
    by (simp add: product_sixteenth trunc_int_def)
  have "0 \<le> mul_d exact_ops 255 (pow_d exact_ops ([0, 1 / 16, 1] ! nat 1) (1 / 2))"
    by (simp add: product_sixteenth)
  with exterior_pixel_colour[of 0 "[[1]]" 0 "\<lparr>rows = 1, cols = 1, data = [[(5, 5, 5)]]\<rparr>" 1 2
      "[0, 1 / 16, 1]" 63 exact_ops "\<lambda>hsv. (7, 7, 7)", OF _ _ _ _ _ _ _ _ _ v]
  show ?thesis by simp
qed

text \<open>
  The intensity is not the rounded product: in a frame of \<open>16\<close> pixels with the histogram
  \<open>[0, 1, 15]\<close> the CDF at \<open>n = 1\<close> is \<open>1/16\<close>, so \<open>vGamma = 1/4\<close> and \<open>255 * vGamma = 63.75\<close>;
  the code stores \<open>V = 63\<close>, and the nearest integer is \<open>64\<close>. The numbers \<open>1/16\<close>, \<open>1/4\<close>
  and \<open>63.75\<close> are doubles, so nothing is rounded on the way.
\<close>

theorem intensity_not_rounded_counterexample:
  "computeCDF exact_ops [0, 1, 15] 16 = Some [0, 1 / 16, 1] \<and>
   intensity exact_ops ([0, 1 / 16, 1] ! 1) = Some 63 \<and>
   round (mul_d exact_ops 255 (pow_d exact_ops ([0, 1 / 16, 1] ! 1) 0.5)) = (64 :: int) \<and>
   intensity exact_ops ([0, 1 / 16, 1] ! 1)
     \<noteq> Some (round (mul_d exact_ops 255 (pow_d exact_ops ([0, 1 / 16, 1] ! 1) 0.5)))"
proof -
  have "computeCDF exact_ops [0, 1, 15] 16 = Some [0, 1 / 16, 1]"
    by (simp add: computeCDF_Some upt_rec[of 0] exact_ops_def)
  moreover have "intensity exact_ops (1 / 16) = Some 63"
    by (simp add: intensity_Some product_sixteenth trunc_int_def)
  moreover have "round (mul_d exact_ops 255 (pow_d exact_ops (1 / 16) (1 / 2))) = (64 :: int)"
    by (simp only: product_sixteenth) (simp add: round_def)
  ultimately show ?thesis by simp
qed

section \<open>The iteration depth\<close>

lemma trunc_int_mono: "a \<le> b \<Longrightarrow> trunc_int a \<le> trunc_int b"
  unfolding trunc_int_def
  by (auto intro: floor_mono ceiling_mono) (smt (verit) ceiling_le_zero zero_le_floor)

lemma powr_power_nat: "0 < x \<Longrightarrow> (x powr a) ^ n = x powr (a * real n)" for x :: real
  by (simp add: powr_realpow[symmetric] powr_powr)

lemma log2_3_bounds: "101 / 64 < log 2 3" "log 2 3 < 51 / 32"
proof -
  have "((2::real) powr (101 / 64)) ^ 64 = 2 powr 101"
    by (simp add: powr_power_nat)
  also have "\<dots> = 2 ^ 101"
    using powr_realpow[of "2::real" 101] by simp
  also have "\<dots> < (3::real) ^ 64" by simp
  finally have "2 powr (101 / 64) < (3::real)"
    by (rule power_less_imp_less_base) simp
  moreover have "101 / 64 < log 2 3 \<longleftrightarrow> 2 powr (101 / 64) < (3::real)"
    by (rule less_log_iff) simp_all
  ultimately show "101 / 64 < log 2 3" by blast
  have "(3::real) ^ 32 < 2 ^ 51" by simp
  also have "\<dots> = 2 powr 51"
    using powr_realpow[of "2::real" 51] by simp
  also have "\<dots> = ((2::real) powr (51 / 32)) ^ 32"
    by (simp add: powr_power_nat)
  finally have "3 < 2 powr (51 / 32 :: real)"
    by (rule power_less_imp_less_base) simp
  moreover have "log 2 3 < 51 / 32 \<longleftrightarrow> 3 < 2 powr (51 / 32 :: real)"
    by (rule log_less_iff) simp_all
  ultimately show "log 2 3 < 51 / 32" by blast
qed

lemma log2_three_quarters: "- 27 < log 2 (3 / 4) * 64" "log 2 (3 / 4) * 64 < - 26"
proof -
  have "log 2 4 = log 2 (2 ^ 2)" by simp
  also have "\<dots> = 2" by (simp only: log_nat_power) simp
  finally have "log 2 (3 / 4) = log 2 3 - 2"
    by (simp add: log_divide)
  then show "- 27 < log 2 (3 / 4) * 64" "log 2 (3 / 4) * 64 < - 26"
    using log2_3_bounds by simp_all
qed

lemma log2_four: "log 2 4 = 2"
proof -
  have "log 2 4 = log 2 (2 ^ 2)" by simp
  also have "\<dots> = 2" by (simp only: log_nat_power) simp
  finally show ?thesis .
qed

lemma log2_ok_exact: "log2_ok exact_ops"
  by (simp add: log2_ok_def exact_ops_def)

lemma log2_okD:
  assumes "log2_ok ops"
  shows "0 < a \<Longrightarrow> a \<le> b \<Longrightarrow> log2_d ops a \<le> log2_d ops b" "log2_d ops 1 = 0" "log2_d ops 2 = 1"
  using assms by (simp_all add: log2_ok_def)

lemma depth_product_mono:
  assumes "rnd_ok ops" "log2_ok ops" "0 < a" "a \<le> b"
  shows "mul_d ops (log2_d ops a) 64 \<le> mul_d ops (log2_d ops b) 64"
proof -
  have "log2_d ops a \<le> log2_d ops b"
    using assms(3,4) by (rule log2_okD(1)[OF assms(2)])
  then have "log2_d ops a * 64 \<le> log2_d ops b * 64" by simp
  then show ?thesis
    unfolding mul_d_def by (rule rnd_okD(1)[OF assms(1)])
qed

lemma depth_product_one: "rnd_ok ops \<Longrightarrow> log2_ok ops \<Longrightarrow> mul_d ops (log2_d ops 1) 64 = 0"
  by (simp add: mul_d_def log2_okD(2) rnd_okD(2))

lemma depth_product_two: "rnd_ok ops \<Longrightarrow> log2_ok ops \<Longrightarrow> mul_d ops (log2_d ops 2) 64 = 64"
  by (simp add: mul_d_def log2_okD(3) rnd_okD(4))

lemma depth_product_nonneg:
  assumes "rnd_ok ops" "log2_ok ops" "1 \<le> z"
  shows "0 \<le> mul_d ops (log2_d ops z) 64"
  using depth_product_mono[OF assms(1,2), of 1 z] assms(3) depth_product_one[OF assms(1,2)]
  by simp

text \<open>
  Claim C7, as amended. For a zoom \<open>z > 0\<close> the iteration depth of the frame is
  \<open>64 + int(log2(z) * 64)\<close>, computed in doubles, where the conversion to \<^verbatim>\<open>int\<close> truncates
  toward zero. When rounding and \<^verbatim>\<open>log2\<close> keep the order and are exact at \<open>0\<close>, \<open>1\<close>, \<open>2\<close> and
  \<open>64\<close>: for \<open>z \<ge> 1\<close> the depth is \<open>64\<close> plus the floor of the computed product; it is \<open>64\<close> at
  zoom \<open>1\<close> and \<open>128\<close> at zoom \<open>2\<close>, and it does not decrease when the zoom grows.
\<close>

theorem maxIter_of_zoom:
  assumes "0 < z1" and "z1 \<le> z2" and "rnd_ok ops" and "log2_ok ops"
  shows "frame_maxIter ops z1 = Some (64 + trunc_int (mul_d ops (log2_d ops z1) 64)) \<and>
         (1 \<le> z1 \<longrightarrow> frame_maxIter ops z1 = Some (64 + \<lfloor>mul_d ops (log2_d ops z1) 64\<rfloor>)) \<and>
         frame_maxIter ops 1 = Some 64 \<and> frame_maxIter ops 2 = Some 128 \<and>
         (\<exists>m1 m2. frame_maxIter ops z1 = Some m1 \<and> frame_maxIter ops z2 = Some m2 \<and> m1 \<le> m2)"
proof -
  have a: "frame_maxIter ops z1 = Some (64 + trunc_int (mul_d ops (log2_d ops z1) 64))"
    using assms(1) by (simp add: frame_maxIter_def)
  have b: "frame_maxIter ops z1 = Some (64 + \<lfloor>mul_d ops (log2_d ops z1) 64\<rfloor>)" if "1 \<le> z1"
    using a depth_product_nonneg[OF assms(3,4) that] by (simp only: trunc_int_nonneg)
  have c: "frame_maxIter ops 1 = Some 64" "frame_maxIter ops 2 = Some 128"
    by (simp_all add: frame_maxIter_def trunc_int_def
        depth_product_one[OF assms(3,4)] depth_product_two[OF assms(3,4)])
  have "trunc_int (mul_d ops (log2_d ops z1) 64) \<le> trunc_int (mul_d ops (log2_d ops z2) 64)"
    by (intro trunc_int_mono depth_product_mono assms)
  moreover have "frame_maxIter ops z2 = Some (64 + trunc_int (mul_d ops (log2_d ops z2) 64))"
    using assms by (simp add: frame_maxIter_def)
  ultimately have d: "\<exists>m1 m2. frame_maxIter ops z1 = Some m1 \<and> frame_maxIter ops z2 = Some m2 \<and> m1 \<le> m2"
    using a by simp
  from a b c d show ?thesis by blast
qed

theorem maxIter_of_zoom_witness:
  "frame_maxIter exact_ops 4 = Some (64 + \<lfloor>mul_d exact_ops (log2_d exact_ops 4) 64\<rfloor>) \<and>
   frame_maxIter exact_ops 4 = Some 192 \<and>
   frame_maxIter exact_ops 1 = Some 64 \<and> frame_maxIter exact_ops 2 = Some 128 \<and>
   (\<exists>m1 m2. frame_maxIter exact_ops 4 = Some m1 \<and> frame_maxIter exact_ops 8 = Some m2 \<and> m1 \<le> m2)"
proof -
  have "mul_d exact_ops (log2_d exact_ops 4) 64 = 128"
    by (simp add: mul_d_def exact_ops_def log2_four)
  with maxIter_of_zoom[of 4 8 exact_ops, OF _ _ rnd_ok_exact log2_ok_exact]
  show ?thesis by (auto simp: trunc_int_def)
qed

text \<open>
  The iteration depth is not the floor formula below zoom \<open>1\<close>: at zoom \<open>3/4\<close> the product
  \<open>log2(zoom) * 64\<close> lies between \<open>-27\<close> and \<open>-26\<close>; the code truncates it to \<open>-26\<close> and the
  depth is \<open>38\<close>, where the floor gives \<open>37\<close>. Such a zoom occurs in \<^verbatim>\<open>main\<close>: with the frame
  rate \<open>-2\<close> the scale is \<open>2\<^sup>-\<^sup>0\<^sup>.\<^sup>4\<close>, which is the zoom of the first frame; its depth is
  \<open>64 - 25 = 39\<close>, where the floor gives \<open>38\<close>. The products are about \<open>-26.56\<close> and \<open>-25.6\<close>,
  far from an integer: rounding to doubles changes neither depth.
\<close>

theorem maxIter_floor_counterexample:
  "frame_maxIter exact_ops (3 / 4) = Some 38 \<and>
   64 + \<lfloor>mul_d exact_ops (log2_d exact_ops (3 / 4)) 64\<rfloor> = (37 :: int) \<and>
   scalePerFrame exact_ops (- 2) = Some (2 powr (- 2 / 5)) \<and>
   zoom_seq exact_ops (2 powr (- 2 / 5)) 1 = 2 powr (- 2 / 5) \<and>
   frame_maxIter exact_ops (2 powr (- 2 / 5)) = Some 39 \<and>
   64 + \<lfloor>mul_d exact_ops (log2_d exact_ops (2 powr (- 2 / 5))) 64\<rfloor> = (38 :: int)"
proof -
  have p: "mul_d exact_ops (log2_d exact_ops (3 / 4)) 64 = log 2 (3 / 4) * 64"
    by (simp add: mul_d_def exact_ops_def)
  have "\<lceil>log 2 (3 / 4) * 64\<rceil> = - 26"
    using log2_three_quarters by (simp add: ceiling_eq_iff)
  moreover have "\<lfloor>log 2 (3 / 4) * 64\<rfloor> = - 27"
    using log2_three_quarters by (simp add: floor_eq_iff)
  moreover have "\<not> 0 \<le> log 2 (3 / 4) * 64"
    using log2_three_quarters(2) by simp
  ultimately have a: "frame_maxIter exact_ops (3 / 4) = Some 38"
    "64 + \<lfloor>mul_d exact_ops (log2_d exact_ops (3 / 4)) 64\<rfloor> = (37 :: int)"
    unfolding p frame_maxIter_def trunc_int_def by simp_all
  have b: "scalePerFrame exact_ops (- 2) = Some (2 powr (- 2 / 5))"
    by (simp add: scalePerFrame_def ddiv_def div_d_def exact_ops_def Let_def powr_powr)
  have z: "zoom_seq exact_ops (2 powr (- 2 / 5)) 1 = 2 powr (- 2 / 5)"
    by (simp add: mul_d_def exact_ops_def)
  have l: "mul_d exact_ops (log2_d exact_ops (2 powr (- 2 / 5))) 64 = - 128 / 5"
    by (simp add: mul_d_def exact_ops_def)
  have "\<lceil>- 128 / 5 :: real\<rceil> = - 25" "\<lfloor>- 128 / 5 :: real\<rfloor> = - 26"
    by (simp_all add: ceiling_eq_iff floor_eq_iff)
  then have c: "frame_maxIter exact_ops (2 powr (- 2 / 5)) = Some 39"
    "64 + \<lfloor>mul_d exact_ops (log2_d exact_ops (2 powr (- 2 / 5))) 64\<rfloor> = (38 :: int)"
    unfolding l frame_maxIter_def trunc_int_def l by simp_all
  from a b z c show ?thesis by simp
qed

section \<open>One frame\<close>

lemma mat_ok_update:
  assumes "mat_ok m" "y < length (data m)" "x < length (data m ! y)"
  shows "mat_ok (m\<lparr>data := (data m)[y := (data m ! y)[x := p]]\<rparr>)"
proof -
  have "set ((data m)[y := (data m ! y)[x := p]]) \<subseteq> insert ((data m ! y)[x := p]) (set (data m))"
    by (rule set_update_subset_insert)
  moreover have "length ((data m ! y)[x := p]) = nat (cols m)"
    using assms by (simp add: mat_ok_def)
  ultimately show ?thesis
    using assms(1) by (auto simp: mat_ok_def)
qed

lemma colorizeImage_Some:
  assumes ok: "mat_ok img"
    and s1: "nat (rows img) \<le> length storeN"
    and s2: "\<forall>y<nat (rows img). nat (cols img) \<le> length (storeN ! y)"
    and px: "\<forall>y<nat (rows img). \<forall>x<nat (cols img).
               \<exists>p. colorize_pixel ops cvt cdf maxIter (storeN ! y ! x) = Some p"
  shows "\<exists>img'. colorizeImage ops cvt img storeN cdf maxIter = Some img' \<and>
           mat_ok img' \<and> rows img' = rows img \<and> cols img' = cols img"
proof -
  define W where "W = nat (cols img)"
  define H where "H = nat (rows img)"
  define I where "I m \<longleftrightarrow> mat_ok m \<and> rows m = rows img \<and> cols m = cols img" for m :: Mat
  have pixel: "\<exists>m'. colorize_body ops cvt storeN cdf maxIter y x m = Some m' \<and> I m'"
    if "y < H" "x < W" "I m" for y x m
  proof -
    from px that obtain p where p: "colorize_pixel ops cvt cdf maxIter (storeN ! y ! x) = Some p"
      unfolding H_def W_def by blast
    have d: "y < length (data m)" "x < length (data m ! y)"
      using that by (simp_all add: I_def mat_ok_def H_def W_def)
    have "y < length storeN" "x < length (storeN ! y)"
      using that s1 s2 by (auto simp: H_def W_def)
    from colorize_body_Some[OF this d p]
    have "colorize_body ops cvt storeN cdf maxIter y x m
        = Some (m\<lparr>data := (data m)[y := (data m ! y)[x := p]]\<rparr>)" .
    moreover have "I (m\<lparr>data := (data m)[y := (data m ! y)[x := p]]\<rparr>)"
      using mat_ok_update[OF _ d, of p] that(3) by (simp add: I_def)
    ultimately show ?thesis by blast
  qed
  have row: "\<exists>m'. for_each (colorize_body ops cvt storeN cdf maxIter y) [0..<W] m = Some m' \<and> I m'"
    if "y < H" "I m" for y m
    by (rule for_each_upt_total[where Q = "\<lambda>i. I"]) (use that pixel in auto)
  have "\<exists>m'. for_each (\<lambda>y. for_each (colorize_body ops cvt storeN cdf maxIter y) [0..<W]) [0..<H] img = Some m' \<and> I m'"
    by (rule for_each_upt_total[where Q = "\<lambda>i. I"]) (use ok row in \<open>auto simp: I_def\<close>)
  then show ?thesis
    by (simp add: colorizeImage_def W_def H_def I_def)
qed

text \<open>\<^verbatim>\<open>colorizeImage\<close> writes pixels only: the image keeps its dimensions.\<close>

lemma colorizeImage_dims:
  assumes run: "colorizeImage ops cvt img storeN cdf maxIter = Some img'"
  shows "rows img' = rows img \<and> cols img' = cols img"
proof -
  define I where "I m \<longleftrightarrow> rows m = rows img \<and> cols m = cols img" for m :: Mat
  have row: "I m'"
    if r: "for_each (colorize_body ops cvt storeN cdf maxIter y) [0..<nat (cols img)] m = Some m'"
      and i: "I m" for y m m'
  proof (rule for_each_upt_partial[where Q = "\<lambda>i. I", OF r i])
    fix x s s'
    assume "I s" and b: "colorize_body ops cvt storeN cdf maxIter y x s = Some s'"
    with colorize_body_SomeD[OF b] show "I s'" by (auto simp: I_def)
  qed
  from run have run': "for_each (\<lambda>y. for_each (colorize_body ops cvt storeN cdf maxIter y) [0..<nat (cols img)])
      [0..<nat (rows img)] img = Some img'"
    by (simp add: colorizeImage_def)
  have "I img'"
    by (rule for_each_upt_partial[where Q = "\<lambda>i. I", OF run']) (simp add: I_def, rule row)
  then show ?thesis by (simp add: I_def)
qed

lemma prefix_sum_nonneg:
  "\<forall>h \<in> set hist. (0::int) \<le> h \<Longrightarrow> 0 \<le> sum_list (take n hist)"
  by (intro sum_list_nonneg) (auto dest: in_set_takeD)

lemma computeFrame_Some:
  assumes z: "1 \<le> zoom st" and r: "rnd_ok (arith e)" and l: "log2_ok (arith e)"
    and w: "0 < width" and h: "0 < height"
    and ok: "schedule_ok (max_threads e) height (schedule e (frameCount st))"
    and img: "mat_ok (image_m st)" "rows (image_m st) = height" "cols (image_m st) = width"
  shows "\<exists>img'. computeFrame e width height centerX centerY xRangeStart yRangeStart st
           = Some (st\<lparr>image_m := img', written := written st @ [(frameCount st, img')],
                      frameCount := frameCount st + 1\<rparr>) \<and>
           mat_ok img' \<and> rows img' = height \<and> cols img' = width"
proof -
  define ops where "ops = arith e"
  define m where "m = 64 + trunc_int (mul_d ops (log2_d ops (zoom st)) 64)"
  have "0 \<le> mul_d ops (log2_d ops (zoom st)) 64"
    unfolding ops_def by (rule depth_product_nonneg[OF r l z])
  then have m0: "0 \<le> m" by (simp add: m_def trunc_int_def)
  have mi: "frame_maxIter ops (zoom st) = Some m"
    using z by (simp add: frame_maxIter_def m_def)
  obtain x_min x_max y_min y_max where
    vp: "frame_viewport ops centerX centerY xRangeStart yRangeStart (zoom st) = Some (x_min, x_max, y_min, y_max)"
    using z by (simp add: frame_viewport_def ddiv_def Let_def)
  define storeN where "storeN = map (\<lambda>y. map (\<lambda>x. escape_value ops m width height x_min x_max y_min y_max x y)
                     [0..<nat width]) [0..<nat height]"
  define hist where "hist = map (\<lambda>k. int (\<Sum>y\<leftarrow>[0..<nat height].
                       row_count ops m width height x_min x_max y_min y_max y (nat width) k))
                     [0..<nat (m + 1)]"
  have fh: "frame_histogram ops (max_threads e) (schedule e (frameCount st)) width height m (x_min, x_max, y_min, y_max)
      = Some (storeN, hist)"
    unfolding storeN_def hist_def by (rule frame_histogram_Some[OF ok m0]) (use w h in simp_all)
  define cdf where "cdf = map (\<lambda>i. rnd ops (real_of_int (sum_list (take (Suc i) hist)) / real_of_int (width * height)))
            [0..<length hist]"
  have tp: "0 < width * height" using w h by simp
  have cd: "computeCDF ops hist (width * height) = Some cdf"
    unfolding cdf_def by (rule computeCDF_Some) (use w h in simp)
  have hn: "\<forall>v \<in> set hist. 0 \<le> v" by (auto simp: hist_def)
  have lc: "length cdf = nat (m + 1)" by (simp add: cdf_def hist_def)
  have cn: "0 \<le> cdf ! i" if "i < nat (m + 1)" for i
  proof -
    have "cdf ! i = rnd ops (real_of_int (sum_list (take (Suc i) hist)) / real_of_int (width * height))"
      using that by (simp add: cdf_def hist_def)
    moreover have "0 \<le> real_of_int (sum_list (take (Suc i) hist))"
      using prefix_sum_nonneg[OF hn, of "Suc i"] by simp
    moreover have "0 \<le> real_of_int (width * height)"
      using tp by (simp only: of_int_0_le_iff)
    ultimately show ?thesis
      using rnd_nonneg[OF r] by (simp only: divide_nonneg_nonneg ops_def)
  qed
  have px: "\<exists>p. colorize_pixel ops (hsv2bgr e) cdf m (storeN ! y ! x) = Some p"
    if "y < nat height" "x < nat width" for y x
  proof -
    define n where "n = escape_value ops m width height x_min x_max y_min y_max x y"
    have sn: "storeN ! y ! x = n" using that by (simp add: storeN_def n_def)
    have r: "0 \<le> n" "n \<le> m" using escape_value_range[OF m0] by (simp_all add: n_def)
    show ?thesis
    proof (cases "n = m")
      case True
      then show ?thesis by (simp add: sn colorize_pixel_def)
    next
      case False
      have "nat n < length cdf" using r lc by simp
      moreover have "0 \<le> cdf ! nat n" using r by (intro cn) simp
      ultimately have "colorize_pixel ops (hsv2bgr e) cdf m (storeN ! y ! x)
          = Some (hsv2bgr e (110, 255, trunc_int (mul_d ops 255 (pow_d ops (cdf ! nat n) (1 / 2)))))"
        using False r(1)
        by (simp add: sn colorize_pixel_def vec_get_int_def vec_get_def intensity_Some)
      then show ?thesis by blast
    qed
  qed
  have "\<exists>img'. colorizeImage ops (hsv2bgr e) (image_m st) storeN cdf m = Some img' \<and>
           mat_ok img' \<and> rows img' = rows (image_m st) \<and> cols img' = cols (image_m st)"
    by (rule colorizeImage_Some[OF img(1)]) (use px img in \<open>simp_all add: storeN_def\<close>)
  then obtain img' where ci: "colorizeImage ops (hsv2bgr e) (image_m st) storeN cdf m = Some img'"
    and io: "mat_ok img'" "rows img' = height" "cols img' = width"
    using img by auto
  have "computeFrame e width height centerX centerY xRangeStart yRangeStart st
           = Some (st\<lparr>image_m := img', written := written st @ [(frameCount st, img')],
                      frameCount := frameCount st + 1\<rparr>)"
    using vp mi fh cd ci by (simp add: computeFrame_def writeFrame_def ops_def)
  with io show ?thesis by blast
qed

lemma computeFrame_SomeD:
  assumes "computeFrame e width height centerX centerY xRangeStart yRangeStart st = Some st'"
  shows "\<exists>img'. st' = st\<lparr>image_m := img', written := written st @ [(frameCount st, img')],
                         frameCount := frameCount st + 1\<rparr> \<and>
           rows img' = rows (image_m st) \<and> cols img' = cols (image_m st)"
  using assms
  by (auto simp: computeFrame_def writeFrame_def Let_def dest: colorizeImage_dims
      split: Option.bind_splits prod.splits)

lemma loop_body_SomeD:
  assumes "loop_body e width height centerX centerY xRangeStart yRangeStart scale st = Some st'"
  shows "\<exists>s yr st2. scale = Some s \<and> yRangeStart = Some yr \<and>
           computeFrame e width height centerX centerY xRangeStart yr
             (st\<lparr>zoom := mul_d (arith e) (zoom st) s\<rparr>) = Some st2 \<and>
           rows (image_m st2) = rows (image_m st) \<and> cols (image_m st2) = cols (image_m st) \<and>
           st' = st\<lparr>zoom := mul_d (arith e) (zoom st) s, image_m := image_m st2,
                    written := written st @ [(frameCount st, image_m st2)],
                    frameCount := frameCount st + 1,
                    progress := progress st @ [(frame st, mul_d (arith e) (zoom st) s)],
                    frame := frame st + 1\<rparr>"
proof -
  from assms obtain s yr st2 where s: "scale = Some s" and yr: "yRangeStart = Some yr"
    and cf: "computeFrame e width height centerX centerY xRangeStart yr
               (st\<lparr>zoom := mul_d (arith e) (zoom st) s\<rparr>) = Some st2"
    and st': "st' = st2\<lparr>progress := progress st2 @ [(frame st2, zoom st2)], frame := frame st2 + 1\<rparr>"
    by (auto simp: loop_body_def Let_def split: Option.bind_splits)
  from computeFrame_SomeD[OF cf] obtain img' where
    st2: "st2 = st\<lparr>zoom := mul_d (arith e) (zoom st) s, image_m := img',
                   written := written st @ [(frameCount st, img')],
                   frameCount := frameCount st + 1\<rparr>"
    and d: "rows img' = rows (image_m st)" "cols img' = cols (image_m st)"
    by auto
  have "st' = st\<lparr>zoom := mul_d (arith e) (zoom st) s, image_m := image_m st2,
                    written := written st @ [(frameCount st, image_m st2)],
                    frameCount := frameCount st + 1,
                    progress := progress st @ [(frame st, mul_d (arith e) (zoom st) s)],
                    frame := frame st + 1\<rparr>"
    unfolding st' by (simp add: st2)
  moreover have "rows (image_m st2) = rows (image_m st)" "cols (image_m st2) = cols (image_m st)"
    using d by (simp_all add: st2)
  ultimately show ?thesis using s yr cf by blast
qed

lemma loop_body_Some:
  assumes sc: "scale = Some s" and yr: "yRangeStart = Some yr"
    and z: "1 \<le> mul_d (arith e) (zoom st) s" and r: "rnd_ok (arith e)" and l: "log2_ok (arith e)"
    and w: "0 < width" and h: "0 < height"
    and ok: "schedule_ok (max_threads e) height (schedule e (frameCount st))"
    and img: "mat_ok (image_m st)" "rows (image_m st) = height" "cols (image_m st) = width"
  shows "\<exists>st2. computeFrame e width height centerX centerY xRangeStart yr
                 (st\<lparr>zoom := mul_d (arith e) (zoom st) s\<rparr>) = Some st2 \<and>
           loop_body e width height centerX centerY xRangeStart yRangeStart scale st
           = Some (st\<lparr>zoom := mul_d (arith e) (zoom st) s, image_m := image_m st2,
                    written := written st @ [(frameCount st, image_m st2)],
                    frameCount := frameCount st + 1,
                    progress := progress st @ [(frame st, mul_d (arith e) (zoom st) s)],
                    frame := frame st + 1\<rparr>) \<and>
           mat_ok (image_m st2) \<and> rows (image_m st2) = height \<and> cols (image_m st2) = width"
proof -
  let ?st1 = "st\<lparr>zoom := mul_d (arith e) (zoom st) s\<rparr>"
  have "\<exists>img'. computeFrame e width height centerX centerY xRangeStart yr ?st1
           = Some (?st1\<lparr>image_m := img', written := written ?st1 @ [(frameCount ?st1, img')],
                      frameCount := frameCount ?st1 + 1\<rparr>) \<and>
           mat_ok img' \<and> rows img' = height \<and> cols img' = width"
    by (rule computeFrame_Some) (use z r l w h ok img in simp_all)
  then obtain img' where
    cf: "computeFrame e width height centerX centerY xRangeStart yr ?st1
           = Some (?st1\<lparr>image_m := img', written := written ?st1 @ [(frameCount ?st1, img')],
                      frameCount := frameCount ?st1 + 1\<rparr>)"
    and io: "mat_ok img'" "rows img' = height" "cols img' = width"
    by blast
  let ?st2 = "?st1\<lparr>image_m := img', written := written ?st1 @ [(frameCount ?st1, img')],
                      frameCount := frameCount ?st1 + 1\<rparr>"
  have "loop_body e width height centerX centerY xRangeStart yRangeStart scale st
           = Some (st\<lparr>zoom := mul_d (arith e) (zoom st) s, image_m := image_m ?st2,
                    written := written st @ [(frameCount st, image_m ?st2)],
                    frameCount := frameCount st + 1,
                    progress := progress st @ [(frame st, mul_d (arith e) (zoom st) s)],
                    frame := frame st + 1\<rparr>)"
    by (simp add: loop_body_def sc yr cf)
  moreover have "mat_ok (image_m ?st2)" "rows (image_m ?st2) = height" "cols (image_m ?st2) = width"
    using io by simp_all
  ultimately show ?thesis using cf by blast
qed

section \<open>The render loop\<close>

lemma render_loop_total:
  fixes f :: "store \<Rightarrow> nat"
  assumes "I st"
    and step: "\<And>s. I s \<Longrightarrow> zoom s < zoomEnd \<Longrightarrow> \<exists>s'. body s = Some s' \<and> I s' \<and> f s' < f s"
  shows "\<exists>st'. render_loop body zoomEnd st = Some (Some st') \<and> I st' \<and> \<not> zoom st' < zoomEnd"
  using assms(1)
proof (induction "f st" arbitrary: st rule: less_induct)
  case less
  show ?case
  proof (cases "zoom st < zoomEnd")
    case True
    from step[OF less.prems True] obtain s' where s': "body st = Some s'" "I s'" "f s' < f st"
      by blast
    from less.hyps[OF s'(3) s'(2)] obtain st' where
      "render_loop body zoomEnd s' = Some (Some st')" "I st'" "\<not> zoom st' < zoomEnd"
      by blast
    then show ?thesis
      using True s'(1) by (subst render_loop.simps) auto
  next
    case False
    then show ?thesis
      using less.prems by (subst render_loop.simps) auto
  qed
qed

lemma render_loop_partial:
  assumes run: "render_loop body zoomEnd st = Some (Some st')"
    and init: "I st"
    and step: "\<And>s s'. I s \<Longrightarrow> zoom s < zoomEnd \<Longrightarrow> body s = Some s' \<Longrightarrow> I s'"
  shows "I st' \<and> \<not> zoom st' < zoomEnd"
proof -
  define P where "P b ze s y \<longleftrightarrow>
      (b = body \<longrightarrow> ze = zoomEnd \<longrightarrow> I s \<longrightarrow> (\<forall>r. y = Some r \<longrightarrow> I r \<and> \<not> zoom r < zoomEnd))"
    for b :: "store \<Rightarrow> store option" and ze :: real and s :: store and y :: "store option"
  have "P body zoomEnd st (Some st')"
  proof (rule render_loop.raw_induct[where P = P, OF _ run])
    fix rl :: "(store \<Rightarrow> store option) \<Rightarrow> real \<Rightarrow> store \<Rightarrow> store option option"
      and b ze s y
    assume IH: "\<And>b' ze' s' y'. rl b' ze' s' = Some y' \<Longrightarrow> P b' ze' s' y'"
      and eq: "(if zoom s < ze then case b s of None \<Rightarrow> Some None | Some st' \<Rightarrow> rl b ze st'
               else Some (Some s)) = Some y"
    show "P b ze s y"
      unfolding P_def
    proof (intro impI allI)
      fix r
      assume b: "b = body" and ze: "ze = zoomEnd" and i: "I s" and y: "y = Some r"
      show "I r \<and> \<not> zoom r < zoomEnd"
      proof (cases "zoom s < zoomEnd")
        case True
        with eq y b ze obtain s1 where s1: "body s = Some s1" "rl body zoomEnd s1 = Some (Some r)"
          by (auto split: option.splits)
        from step[OF i True s1(1)] have "I s1" .
        with IH[OF s1(2)] show ?thesis by (simp add: P_def)
      next
        case False
        with eq y ze have "r = s" by simp
        with False i show ?thesis by simp
      qed
    qed
  qed
  with init show ?thesis by (simp add: P_def)
qed

lemma scalePerFrame_Some:
  "fps \<noteq> 0 \<Longrightarrow> scalePerFrame ops fps
     = Some (pow_d ops (pow_d ops 2 (div_d ops 1 1.25)) (div_d ops 1 (real_of_int fps)))"
  by (simp add: scalePerFrame_def ddiv_def Let_def)

lemma after_frames_step:
  assumes k: "after_frames render ops s k st"
    and run: "render (st\<lparr>zoom := mul_d ops (zoom st) s\<rparr>) = Some st2"
    and dims: "rows (image_m st2) = rows (image_m st)" "cols (image_m st2) = cols (image_m st)"
    and st': "st' = st\<lparr>zoom := mul_d ops (zoom st) s, image_m := image_m st2,
                    written := written st @ [(frameCount st, image_m st2)],
                    frameCount := frameCount st + 1,
                    progress := progress st @ [(frame st, mul_d ops (zoom st) s)],
                    frame := frame st + 1\<rparr>"
  shows "after_frames render ops s (Suc k) st'"
proof -
  from k have a: "zoom st = zoom_seq ops s k" "frame st = int k" "frameCount st = int k"
    "progress st = map (\<lambda>j. (int j, zoom_seq ops s (Suc j))) [0..<k]"
    "map fst (written st) = map int [0..<k]"
    and tie: "\<forall>j<k. \<exists>st1 st2. zoom st1 = zoom_seq ops s (Suc j) \<and> frameCount st1 = int j \<and>
        rows (image_m st1) = rows (image_m st) \<and> cols (image_m st1) = cols (image_m st) \<and>
        render st1 = Some st2 \<and> snd (written st ! j) = image_m st2"
    by (simp_all add: after_frames_def)
  have len: "length (written st) = k"
    using a(5) by (metis length_map length_upt minus_nat.diff_0)
  have "\<exists>st1 st2'. zoom st1 = zoom_seq ops s (Suc j) \<and> frameCount st1 = int j \<and>
        rows (image_m st1) = rows (image_m st') \<and> cols (image_m st1) = cols (image_m st') \<and>
        render st1 = Some st2' \<and> snd (written st' ! j) = image_m st2'"
    if j: "j < Suc k" for j
  proof (cases "j < k")
    case True
    with tie obtain st1 st2' where "zoom st1 = zoom_seq ops s (Suc j)" "frameCount st1 = int j"
      "rows (image_m st1) = rows (image_m st)" "cols (image_m st1) = cols (image_m st)"
      "render st1 = Some st2'" "snd (written st ! j) = image_m st2'"
      by blast
    moreover have "written st' ! j = written st ! j"
      using True len by (simp add: st' nth_append)
    ultimately show ?thesis
      using dims by (intro exI[of _ st1] exI[of _ st2']) (simp add: st')
  next
    case False
    with j have jk: "j = k" by simp
    have "written st' ! j = (frameCount st, image_m st2)"
      using len by (simp add: st' jk nth_append)
    then show ?thesis
      using run dims a(1,3)
      by (intro exI[of _ "st\<lparr>zoom := mul_d ops (zoom st) s\<rparr>"] exI[of _ st2]) (simp add: st' jk)
  qed
  then show ?thesis
    using a by (simp add: after_frames_def st')
qed

lemma after_frames_main_store: "after_frames render ops s 0 (main_store width height pixels0)"
  by (simp add: after_frames_def main_store_def)

lemma after_frames_last:
  assumes "after_frames render ops s (Suc k) st"
  shows "\<exists>st1 st2. zoom st1 = zoom st \<and> frameCount st1 = int k \<and> render st1 = Some st2 \<and>
           last (written st) = (int k, image_m st2)"
proof -
  from assms have z: "zoom st = zoom_seq ops s (Suc k)"
    and f: "map fst (written st) = map int [0..<Suc k]"
    and all: "\<forall>j<Suc k. \<exists>st1 st2. zoom st1 = zoom_seq ops s (Suc j) \<and> frameCount st1 = int j \<and>
        rows (image_m st1) = rows (image_m st) \<and> cols (image_m st1) = cols (image_m st) \<and>
        render st1 = Some st2 \<and> snd (written st ! j) = image_m st2"
    by (simp_all add: after_frames_def)
  from all[rule_format, of k]
  have tie: "\<exists>st1 st2. zoom st1 = zoom_seq ops s (Suc k) \<and> frameCount st1 = int k \<and>
        render st1 = Some st2 \<and> snd (written st ! k) = image_m st2"
    by blast
  have len: "length (written st) = Suc k"
    using f by (metis length_map length_upt minus_nat.diff_0)
  then have l: "last (written st) = written st ! k"
    by (metis diff_Suc_1 last_conv_nth length_0_conv nat.distinct(1))
  have "fst (written st ! k) = map fst (written st) ! k"
    using len by simp
  also have "\<dots> = int k"
    unfolding f by (simp add: nth_append)
  finally have "written st ! k = (int k, snd (written st ! k))"
    by (simp add: prod_eq_iff)
  with tie l z show ?thesis by metis
qed

lemma main_loop_partial:
  assumes sc: "scalePerFrame (arith e) fps = Some s"
    and yr: "main_yRangeStart (arith e) width height = Some yr"
    and run: "main_loop e width height fps zoomEnd pixels0 = Some (Some st')"
  shows "\<exists>N. after_frames
               (computeFrame e width height (main_centerX (arith e)) (main_centerY (arith e))
                  main_xRangeStart yr) (arith e) s N st' \<and>
             zoomEnd \<le> zoom_seq (arith e) s N \<and> (\<forall>k<N. zoom_seq (arith e) s k < zoomEnd)"
proof -
  define render where "render = computeFrame e width height (main_centerX (arith e))
      (main_centerY (arith e)) main_xRangeStart yr"
  define I where "I st \<longleftrightarrow>
      (\<exists>k. after_frames render (arith e) s k st \<and> (\<forall>j<k. zoom_seq (arith e) s j < zoomEnd))"
    for st :: store
  define body where "body = loop_body e width height (main_centerX (arith e)) (main_centerY (arith e))
      main_xRangeStart (main_yRangeStart (arith e) width height) (scalePerFrame (arith e) fps)"
  from run have run': "render_loop body zoomEnd (main_store width height pixels0) = Some (Some st')"
    by (simp add: main_loop_def body_def Let_def)
  have init: "I (main_store width height pixels0)"
    unfolding I_def using after_frames_main_store[of render "arith e" s] by blast
  have step: "I b" if "I a" "zoom a < zoomEnd" "body a = Some b" for a b
  proof -
    from that(1) obtain k where k: "after_frames render (arith e) s k a"
      "\<forall>j<k. zoom_seq (arith e) s j < zoomEnd"
      unfolding I_def by blast
    from loop_body_SomeD[OF that(3)[unfolded body_def]] sc yr obtain st2 where
      cf: "render (a\<lparr>zoom := mul_d (arith e) (zoom a) s\<rparr>) = Some st2"
      and d: "rows (image_m st2) = rows (image_m a)" "cols (image_m st2) = cols (image_m a)"
      and b: "b = a\<lparr>zoom := mul_d (arith e) (zoom a) s, image_m := image_m st2,
                    written := written a @ [(frameCount a, image_m st2)],
                    frameCount := frameCount a + 1,
                    progress := progress a @ [(frame a, mul_d (arith e) (zoom a) s)],
                    frame := frame a + 1\<rparr>"
      unfolding render_def by auto
    have "after_frames render (arith e) s (Suc k) b"
      by (rule after_frames_step[OF k(1) cf d b])
    moreover have "\<forall>j<Suc k. zoom_seq (arith e) s j < zoomEnd"
      using k that(2) by (auto simp: less_Suc_eq after_frames_def)
    ultimately show ?thesis unfolding I_def by blast
  qed
  from render_loop_partial[where I = I, OF run' init step]
  have "I st'" "\<not> zoom st' < zoomEnd" by simp_all
  then show ?thesis
    unfolding I_def render_def by (auto simp: after_frames_def)
qed

text \<open>
  The loop is left when every multiplication, rounded, makes the zoom grow by a factor
  \<open>q > 1\<close> at least, as long as the zoom is below \<open>zoomEnd\<close>.
\<close>

lemma main_loop_total:
  assumes sc: "scalePerFrame (arith e) fps = Some s"
    and yr: "main_yRangeStart (arith e) width height = Some yr"
    and q: "1 < q" and grow: "\<forall>z. 1 \<le> z \<and> z < zoomEnd \<longrightarrow> q * z \<le> mul_d (arith e) z s"
    and r: "rnd_ok (arith e)" and l: "log2_ok (arith e)"
    and w: "0 < width" and h: "0 < height"
    and ok: "\<forall>k. schedule_ok (max_threads e) height (schedule e k)"
    and px: "length pixels0 = nat height" "\<forall>r \<in> set pixels0. length r = nat width"
  shows "\<exists>st'. main_loop e width height fps zoomEnd pixels0 = Some (Some st')"
proof -
  from real_arch_pow[OF q, of zoomEnd] obtain N0 where N0: "zoomEnd < q ^ N0" by blast
  define render where "render = computeFrame e width height (main_centerX (arith e))
      (main_centerY (arith e)) main_xRangeStart yr"
  define body where "body = loop_body e width height (main_centerX (arith e)) (main_centerY (arith e))
      main_xRangeStart (main_yRangeStart (arith e) width height) (scalePerFrame (arith e) fps)"
  define I where "I st \<longleftrightarrow> (\<exists>k. frame st = int k \<and> q ^ k \<le> zoom st) \<and>
      mat_ok (image_m st) \<and> rows (image_m st) = height \<and> cols (image_m st) = width"
    for st :: store
  define f where "f st = N0 - nat (frame st)" for st :: store
  have init: "I (main_store width height pixels0)"
    unfolding I_def using w h px
    by (auto simp: main_store_def mat_ok_def intro: exI[of _ 0])
  have step: "\<exists>b. body a = Some b \<and> I b \<and> f b < f a" if a: "I a" and lt: "zoom a < zoomEnd" for a
  proof -
    from a obtain k where k: "frame a = int k" "q ^ k \<le> zoom a"
      and im: "mat_ok (image_m a)" "rows (image_m a) = height" "cols (image_m a) = width"
      unfolding I_def by blast
    have "q ^ k < q ^ N0" using lt N0 k(2) by simp
    then have kN: "k < N0" using q by simp
    have "1 \<le> q ^ k" using q by (intro one_le_power) simp
    then have z1: "1 \<le> zoom a" using k(2) by simp
    with grow lt have g: "q * zoom a \<le> mul_d (arith e) (zoom a) s" by blast
    have "q ^ Suc k \<le> q * zoom a" using k(2) q by simp
    with g have g2: "q ^ Suc k \<le> mul_d (arith e) (zoom a) s" by simp
    have "1 \<le> q ^ Suc k" using q by (intro one_le_power) simp
    with g2 have z2: "1 \<le> mul_d (arith e) (zoom a) s" by simp
    have "\<exists>st2. computeFrame e width height (main_centerX (arith e)) (main_centerY (arith e)) main_xRangeStart yr
                 (a\<lparr>zoom := mul_d (arith e) (zoom a) s\<rparr>) = Some st2 \<and>
           loop_body e width height (main_centerX (arith e)) (main_centerY (arith e)) main_xRangeStart
             (main_yRangeStart (arith e) width height) (scalePerFrame (arith e) fps) a
           = Some (a\<lparr>zoom := mul_d (arith e) (zoom a) s, image_m := image_m st2,
                    written := written a @ [(frameCount a, image_m st2)],
                    frameCount := frameCount a + 1,
                    progress := progress a @ [(frame a, mul_d (arith e) (zoom a) s)],
                    frame := frame a + 1\<rparr>) \<and>
           mat_ok (image_m st2) \<and> rows (image_m st2) = height \<and> cols (image_m st2) = width"
      by (rule loop_body_Some[OF sc yr z2 r l w h _ im]) (use ok in simp)
    then obtain st2 :: store where
      lb: "loop_body e width height (main_centerX (arith e)) (main_centerY (arith e)) main_xRangeStart
             (main_yRangeStart (arith e) width height) (scalePerFrame (arith e) fps) a
           = Some (a\<lparr>zoom := mul_d (arith e) (zoom a) s, image_m := image_m st2,
                    written := written a @ [(frameCount a, image_m st2)],
                    frameCount := frameCount a + 1,
                    progress := progress a @ [(frame a, mul_d (arith e) (zoom a) s)],
                    frame := frame a + 1\<rparr>)"
      and io: "mat_ok (image_m st2)" "rows (image_m st2) = height" "cols (image_m st2) = width"
      by blast
    have b: "body a = Some (a\<lparr>zoom := mul_d (arith e) (zoom a) s, image_m := image_m st2,
                    written := written a @ [(frameCount a, image_m st2)],
                    frameCount := frameCount a + 1,
                    progress := progress a @ [(frame a, mul_d (arith e) (zoom a) s)],
                    frame := frame a + 1\<rparr>)"
      unfolding body_def by (rule lb)
    let ?b = "a\<lparr>zoom := mul_d (arith e) (zoom a) s, image_m := image_m st2,
                    written := written a @ [(frameCount a, image_m st2)],
                    frameCount := frameCount a + 1,
                    progress := progress a @ [(frame a, mul_d (arith e) (zoom a) s)],
                    frame := frame a + 1\<rparr>"
    have "frame ?b = int (Suc k) \<and> q ^ Suc k \<le> zoom ?b"
      using k(1) g2 by simp
    then have "\<exists>k'. frame ?b = int k' \<and> q ^ k' \<le> zoom ?b"
      by (rule exI[of _ "Suc k"])
    then have "I ?b" unfolding I_def using io by simp
    moreover have "f ?b < f a"
      using kN k by (simp add: f_def)
    ultimately show ?thesis using b by blast
  qed
  from render_loop_total[where I = I and f = f, OF init step]
  obtain st' where "render_loop body zoomEnd (main_store width height pixels0) = Some (Some st')"
    by blast
  then have "main_loop e width height fps zoomEnd pixels0 = Some (Some st')"
    by (simp add: main_loop_def body_def Let_def)
  then show ?thesis by blast
qed

text \<open>
  The zoom grows in this way when the rounding has a relative error of at most \<open>u\<close> and
  \<open>s * (1 - u) > 1\<close>: for doubles, where \<open>u = 2\<^sup>-\<^sup>5\<^sup>3\<close>, with every scale that is a double above
  \<open>1\<close>.
\<close>

lemma growth_from_relative_error:
  assumes err: "\<forall>x. \<bar>rnd ops x - x\<bar> \<le> u * \<bar>x\<bar>" and s: "0 \<le> s"
  shows "\<forall>z. 1 \<le> z \<and> z < zoomEnd \<longrightarrow> (s * (1 - u)) * z \<le> mul_d ops z s"
proof (intro allI impI)
  fix z :: real
  assume z: "1 \<le> z \<and> z < zoomEnd"
  then have p: "0 \<le> z * s" using s by simp
  from err have "\<bar>rnd ops (z * s) - z * s\<bar> \<le> u * \<bar>z * s\<bar>" by blast
  then have "z * s - u * (z * s) \<le> rnd ops (z * s)" using p by simp
  then show "(s * (1 - u)) * z \<le> mul_d ops z s"
    by (simp add: mul_d_def algebra_simps)
qed

text \<open>With a scale between \<open>0\<close> and \<open>1\<close>, as a negative frame rate gives, no zoom reaches a
  \<open>zoomEnd\<close> above \<open>1\<close>, and the render loop is never left.\<close>

lemma zoom_seq_le_one:
  assumes "rnd_ok ops" "0 \<le> s" "s \<le> 1"
  shows "0 \<le> zoom_seq ops s k \<and> zoom_seq ops s k \<le> 1"
proof (induction k)
  case 0
  then show ?case by simp
next
  case (Suc k)
  then have "0 \<le> zoom_seq ops s k * s" "zoom_seq ops s k * s \<le> 1"
    using assms(2,3) by (simp_all add: mult_le_one)
  then have "rnd ops 0 \<le> rnd ops (zoom_seq ops s k * s)" "rnd ops (zoom_seq ops s k * s) \<le> rnd ops 1"
    by (simp_all only: rnd_okD(1)[OF assms(1)])
  then show ?case
    by (simp add: mul_d_def rnd_okD(2,3)[OF assms(1)])
qed

lemma main_loop_scale_le_one:
  assumes sc: "scalePerFrame (arith e) fps = Some s" and s: "0 \<le> s" "s \<le> 1"
    and r: "rnd_ok (arith e)" and ze: "1 < zoomEnd"
  shows "main_loop e width height fps zoomEnd pixels0 \<noteq> Some (Some st')"
proof
  assume run: "main_loop e width height fps zoomEnd pixels0 = Some (Some st')"
  show False
  proof (cases "main_yRangeStart (arith e) width height")
    case None
    have "loop_body e width height (main_centerX (arith e)) (main_centerY (arith e)) main_xRangeStart
        None (Some s) (main_store width height pixels0) = None"
      by (simp add: loop_body_def)
    then have "main_loop e width height fps zoomEnd pixels0 = Some None"
      using ze by (simp add: main_loop_def Let_def None sc render_loop.simps main_store_def)
    with run show False by simp
  next
    case (Some yr)
    from main_loop_partial[OF sc Some run] obtain N where "zoomEnd \<le> zoom_seq (arith e) s N"
      by blast
    with zoom_seq_le_one[OF r s, of N] ze show False by simp
  qed
qed

text \<open>
  Claim C8. The render loop starts from the zoom \<open>1\<close>. Every iteration multiplies the zoom
  by the constant \<open>scalePerFrame\<close>, the power \<open>1 / fps\<close> of the power \<open>1 / 1.25\<close> of \<open>2\<close>, and then
  calls \<^verbatim>\<open>computeFrame\<close> with the product, whose image it keeps, writes and announces, so
  that \<open>zoom\<^sub>k\<^sub>+\<^sub>1 = zoom\<^sub>k * scalePerFrame\<close>, a product of doubles. Whenever the loop is left,
  after \<open>N\<close> frames, the zoom is the first \<open>zoom\<^sub>N\<close> with \<open>zoom\<^sub>N \<ge> zoomEnd\<close>; the image
  written as frame \<open>j\<close> is the one that \<^verbatim>\<open>computeFrame\<close> returns for the zoom \<open>zoom\<^sub>j\<^sub>+\<^sub>1\<close>, so
  the last frame, if there is one, was computed with the final zoom. The loop is left when the image has positive dimensions and every
  multiplication makes a zoom below \<open>zoomEnd\<close> grow by a factor \<open>q > 1\<close> at least.
\<close>

theorem zoom_progression:
  "after_frames render (arith e) s 0 (main_store width height pixels0) \<and>
   zoom (main_store width height pixels0) = 1 \<and>
   (fps \<noteq> 0 \<longrightarrow>
      scalePerFrame (arith e) fps
        = Some (pow_d (arith e) (pow_d (arith e) 2 (div_d (arith e) 1 1.25))
                  (div_d (arith e) 1 (real_of_int fps)))) \<and>
   (\<forall>st st'.
      loop_body e width height (main_centerX (arith e)) (main_centerY (arith e)) main_xRangeStart
        (main_yRangeStart (arith e) width height) (scalePerFrame (arith e) fps) st = Some st' \<longrightarrow>
      (\<exists>s yr st2. scalePerFrame (arith e) fps = Some s \<and>
         main_yRangeStart (arith e) width height = Some yr \<and>
         computeFrame e width height (main_centerX (arith e)) (main_centerY (arith e))
           main_xRangeStart yr (st\<lparr>zoom := mul_d (arith e) (zoom st) s\<rparr>) = Some st2 \<and>
         zoom st' = mul_d (arith e) (zoom st) s \<and> image_m st' = image_m st2 \<and>
         written st' = written st @ [(frameCount st, image_m st2)] \<and>
         progress st' = progress st @ [(frame st, mul_d (arith e) (zoom st) s)] \<and>
         frame st' = frame st + 1)) \<and>
   (\<forall>s yr st'. scalePerFrame (arith e) fps = Some s \<longrightarrow>
      main_yRangeStart (arith e) width height = Some yr \<longrightarrow>
      main_loop e width height fps zoomEnd pixels0 = Some (Some st') \<longrightarrow>
      (\<exists>N. after_frames
              (computeFrame e width height (main_centerX (arith e)) (main_centerY (arith e))
                 main_xRangeStart yr) (arith e) s N st' \<and>
           zoom st' = zoom_seq (arith e) s N \<and>
           zoomEnd \<le> zoom_seq (arith e) s N \<and> (\<forall>k<N. zoom_seq (arith e) s k < zoomEnd) \<and>
           (N = 0 \<or>
            (\<exists>st1 st2. zoom st1 = zoom st' \<and> frameCount st1 = int N - 1 \<and>
               computeFrame e width height (main_centerX (arith e)) (main_centerY (arith e))
                 main_xRangeStart yr st1 = Some st2 \<and>
               last (written st') = (int N - 1, image_m st2))))) \<and>
   (\<forall>s yr q. scalePerFrame (arith e) fps = Some s \<and>
      main_yRangeStart (arith e) width height = Some yr \<and>
      1 < q \<and> (\<forall>z. 1 \<le> z \<and> z < zoomEnd \<longrightarrow> q * z \<le> mul_d (arith e) z s) \<and>
      rnd_ok (arith e) \<and> log2_ok (arith e) \<and> 0 < width \<and> 0 < height \<and>
      (\<forall>k. schedule_ok (max_threads e) height (schedule e k)) \<and>
      length pixels0 = nat height \<and> (\<forall>r \<in> set pixels0. length r = nat width) \<longrightarrow>
      (\<exists>st'. main_loop e width height fps zoomEnd pixels0 = Some (Some st')))"
proof (intro conjI allI impI)
  show "after_frames render (arith e) s 0 (main_store width height pixels0)"
    by (rule after_frames_main_store)
next
  show "zoom (main_store width height pixels0) = 1"
    by (simp add: main_store_def)
next
  assume "fps \<noteq> 0"
  then show "scalePerFrame (arith e) fps
        = Some (pow_d (arith e) (pow_d (arith e) 2 (div_d (arith e) 1 1.25))
                  (div_d (arith e) 1 (real_of_int fps)))"
    by (rule scalePerFrame_Some)
next
  fix st st'
  assume "loop_body e width height (main_centerX (arith e)) (main_centerY (arith e)) main_xRangeStart
        (main_yRangeStart (arith e) width height) (scalePerFrame (arith e) fps) st = Some st'"
  from loop_body_SomeD[OF this] obtain s yr st2 where
    "scalePerFrame (arith e) fps = Some s" "main_yRangeStart (arith e) width height = Some yr"
    "computeFrame e width height (main_centerX (arith e)) (main_centerY (arith e))
           main_xRangeStart yr (st\<lparr>zoom := mul_d (arith e) (zoom st) s\<rparr>) = Some st2"
    "st' = st\<lparr>zoom := mul_d (arith e) (zoom st) s, image_m := image_m st2,
                    written := written st @ [(frameCount st, image_m st2)],
                    frameCount := frameCount st + 1,
                    progress := progress st @ [(frame st, mul_d (arith e) (zoom st) s)],
                    frame := frame st + 1\<rparr>"
    by blast
  then show "\<exists>s yr st2. scalePerFrame (arith e) fps = Some s \<and>
         main_yRangeStart (arith e) width height = Some yr \<and>
         computeFrame e width height (main_centerX (arith e)) (main_centerY (arith e))
           main_xRangeStart yr (st\<lparr>zoom := mul_d (arith e) (zoom st) s\<rparr>) = Some st2 \<and>
         zoom st' = mul_d (arith e) (zoom st) s \<and> image_m st' = image_m st2 \<and>
         written st' = written st @ [(frameCount st, image_m st2)] \<and>
         progress st' = progress st @ [(frame st, mul_d (arith e) (zoom st) s)] \<and>
         frame st' = frame st + 1"
    by (intro exI[of _ s] exI[of _ yr] exI[of _ st2]) simp
next
  fix s yr st'
  let ?render = "computeFrame e width height (main_centerX (arith e)) (main_centerY (arith e))
                 main_xRangeStart yr"
  assume "scalePerFrame (arith e) fps = Some s"
    and "main_yRangeStart (arith e) width height = Some yr"
    and "main_loop e width height fps zoomEnd pixels0 = Some (Some st')"
  then obtain N where N: "after_frames ?render (arith e) s N st'"
    "zoomEnd \<le> zoom_seq (arith e) s N" "\<forall>k<N. zoom_seq (arith e) s k < zoomEnd"
    using main_loop_partial by blast
  have z: "zoom st' = zoom_seq (arith e) s N"
    using N(1) by (simp add: after_frames_def)
  have "N = 0 \<or>
            (\<exists>st1 st2. zoom st1 = zoom st' \<and> frameCount st1 = int N - 1 \<and>
               ?render st1 = Some st2 \<and> last (written st') = (int N - 1, image_m st2))"
  proof (cases N)
    case 0
    then show ?thesis by simp
  next
    case (Suc k)
    with after_frames_last[of ?render "arith e" s k st'] N(1) show ?thesis by simp
  qed
  with N z show "\<exists>N. after_frames ?render (arith e) s N st' \<and>
           zoom st' = zoom_seq (arith e) s N \<and>
           zoomEnd \<le> zoom_seq (arith e) s N \<and> (\<forall>k<N. zoom_seq (arith e) s k < zoomEnd) \<and>
           (N = 0 \<or>
            (\<exists>st1 st2. zoom st1 = zoom st' \<and> frameCount st1 = int N - 1 \<and>
               ?render st1 = Some st2 \<and> last (written st') = (int N - 1, image_m st2)))"
    by blast
next
  fix s yr q
  assume "scalePerFrame (arith e) fps = Some s \<and>
      main_yRangeStart (arith e) width height = Some yr \<and>
      1 < q \<and> (\<forall>z. 1 \<le> z \<and> z < zoomEnd \<longrightarrow> q * z \<le> mul_d (arith e) z s) \<and>
      rnd_ok (arith e) \<and> log2_ok (arith e) \<and> 0 < width \<and> 0 < height \<and>
      (\<forall>k. schedule_ok (max_threads e) height (schedule e k)) \<and>
      length pixels0 = nat height \<and> (\<forall>r \<in> set pixels0. length r = nat width)"
  then show "\<exists>st'. main_loop e width height fps zoomEnd pixels0 = Some (Some st')"
    by (intro main_loop_total[of e fps s width height yr q zoomEnd pixels0]) simp_all
qed

theorem zoom_progression_witness:
  "\<exists>s st' N. scalePerFrame exact_ops 1 = Some s \<and> 1 < s \<and>
     main_loop \<lparr>arith = exact_ops, max_threads = 1, schedule = (\<lambda>k. [(0, 0)]),
                hsv2bgr = (\<lambda>hsv. (7, 7, 7))\<rparr> 1 1 1 2 [[(0, 0, 0)]] = Some (Some st') \<and>
     after_frames
       (computeFrame \<lparr>arith = exact_ops, max_threads = 1, schedule = (\<lambda>k. [(0, 0)]),
                      hsv2bgr = (\<lambda>hsv. (7, 7, 7))\<rparr> 1 1
          (main_centerX exact_ops) (main_centerY exact_ops) main_xRangeStart 3)
       exact_ops s N st' \<and>
     zoom st' = zoom_seq exact_ops s N \<and> 2 \<le> zoom_seq exact_ops s N"
proof -
  let ?e = "\<lparr>arith = exact_ops, max_threads = 1, schedule = (\<lambda>k. [(0, 0)]),
             hsv2bgr = (\<lambda>hsv. (7, 7, 7))\<rparr>"
  define s :: real where "s = (2 powr (1 / 1.25)) powr (1 / real_of_int 1)"
  have sc: "scalePerFrame (arith ?e) 1 = Some s"
    by (simp add: scalePerFrame_def ddiv_def div_d_def exact_ops_def Let_def s_def)
  have "1 < (2::real) powr (1 / 1.25)" by (rule gr_one_powr) simp_all
  then have s1: "1 < s" unfolding s_def by (rule gr_one_powr) simp
  have yr: "main_yRangeStart (arith ?e) 1 1 = Some 3"
    by (simp add: main_yRangeStart_def main_xRangeStart_def ddiv_def div_d_def exact_ops_def)
  have grow: "\<forall>z. 1 \<le> z \<and> z < 2 \<longrightarrow> s * z \<le> mul_d (arith ?e) z s"
    by (simp add: mul_d_def exact_ops_def mult.commute)
  note t = zoom_progression[of _ ?e _ 1 1 "[[(0, 0, 0)]]" 1 2]
  have pre: "scalePerFrame (arith ?e) 1 = Some s \<and>
      main_yRangeStart (arith ?e) 1 1 = Some 3 \<and>
      1 < s \<and> (\<forall>z. 1 \<le> z \<and> z < 2 \<longrightarrow> s * z \<le> mul_d (arith ?e) z s) \<and>
      rnd_ok (arith ?e) \<and> log2_ok (arith ?e) \<and> 0 < (1::int) \<and> 0 < (1::int) \<and>
      (\<forall>k. schedule_ok (max_threads ?e) 1 (schedule ?e k)) \<and>
      length [[(0, 0, 0) :: Vec3b]] = nat 1 \<and> (\<forall>r \<in> set [[(0, 0, 0) :: Vec3b]]. length r = nat 1)"
    using sc yr s1 grow by (simp add: schedule_ok_def rnd_ok_exact log2_ok_exact)
  from t pre obtain st' where run: "main_loop ?e 1 1 1 2 [[(0, 0, 0)]] = Some (Some st')"
    by blast
  from t sc yr run obtain N where
    "after_frames (computeFrame ?e 1 1 (main_centerX (arith ?e)) (main_centerY (arith ?e))
        main_xRangeStart 3) (arith ?e) s N st'"
    "zoom st' = zoom_seq (arith ?e) s N" "2 \<le> zoom_seq (arith ?e) s N"
    by blast
  with sc s1 run show ?thesis by auto
qed

text \<open>
  Claim C9. \<^verbatim>\<open>computeFrame\<close> does not write the zoom it receives by reference: when it
  returns, the zoom is the one it was called with. An iteration of the render loop
  changes the zoom only by its own multiplication with the scale.
\<close>

theorem computeFrame_keeps_zoom:
  "(\<forall>st'. computeFrame e width height centerX centerY xRangeStart yRangeStart st = Some st' \<longrightarrow>
      zoom st' = zoom st) \<and>
   (\<forall>st'. loop_body e width height centerX centerY xRangeStart yr scale st = Some st' \<longrightarrow>
      (\<exists>s. scale = Some s \<and> zoom st' = mul_d (arith e) (zoom st) s))"
proof -
  have "zoom st' = zoom st"
    if "computeFrame e width height centerX centerY xRangeStart yRangeStart st = Some st'" for st'
    using computeFrame_SomeD[OF that] by auto
  moreover have "\<exists>s. scale = Some s \<and> zoom st' = mul_d (arith e) (zoom st) s"
    if "loop_body e width height centerX centerY xRangeStart yr scale st = Some st'" for st'
    using loop_body_SomeD[OF that] by auto
  ultimately show ?thesis by blast
qed

theorem computeFrame_keeps_zoom_witness:
  "\<exists>st'. computeFrame \<lparr>arith = exact_ops, max_threads = 1, schedule = (\<lambda>k. [(0, 0)]),
                        hsv2bgr = (\<lambda>hsv. (7, 7, 7))\<rparr>
       1 1 0 0 3 3 (main_store 1 1 [[(0, 0, 0)]]\<lparr>zoom := 2\<rparr>) = Some st' \<and>
     zoom st' = 2"
proof -
  let ?e = "\<lparr>arith = exact_ops, max_threads = 1, schedule = (\<lambda>k. [(0, 0)]),
             hsv2bgr = (\<lambda>hsv. (7, 7, 7))\<rparr>"
  let ?st = "main_store 1 1 [[(0, 0, 0)]]\<lparr>zoom := 2\<rparr>"
  have "\<exists>img'. computeFrame ?e 1 1 0 0 3 3 ?st
           = Some (?st\<lparr>image_m := img', written := written ?st @ [(frameCount ?st, img')],
                      frameCount := frameCount ?st + 1\<rparr>) \<and>
           mat_ok img' \<and> rows img' = 1 \<and> cols img' = 1"
    by (rule computeFrame_Some)
      (simp_all add: main_store_def schedule_ok_def mat_ok_def rnd_ok_exact log2_ok_exact)
  then obtain st' where run: "computeFrame ?e 1 1 0 0 3 3 ?st = Some st'" by blast
  with computeFrame_keeps_zoom[of ?e 1 1 0 0 3 3 ?st] have "zoom st' = zoom ?st" by blast
  then have "zoom st' = 2" by simp
  with run show ?thesis by blast
qed

text \<open>
  Claim C10. With \<open>zoomEnd \<le> 1\<close> the body of the render loop is never executed: the loop is
  left with the initial memory, no frame is written or announced and the counter
  \<open>frame\<close> is \<open>0\<close>. The final report divides \<open>elapsedSec\<close> by the counter whatever its
  value is: the time per frame is the quotient of doubles when the counter is not \<open>0\<close>,
  and for the counter \<open>0\<close> of this run it is the result of the division by zero, an
  infinity of the sign of \<open>elapsedSec\<close>, or NaN when \<open>elapsedSec\<close> is \<open>0\<close>.
\<close>

theorem no_frames_when_zoomEnd_le_one:
  assumes "zoomEnd \<le> 1"
  shows "main_loop e width height fps zoomEnd pixels0 = Some (Some (main_store width height pixels0)) \<and>
         frame (main_store width height pixels0) = 0 \<and>
         written (main_store width height pixels0) = [] \<and>
         progress (main_store width height pixels0) = [] \<and>
         main e width height fps zoomEnd pixels0 elapsedSec
           = Some (Some \<lparr>frames_generated = 0, final_zoom = 1, total_time = elapsedSec,
                          time_per_frame =
                            (if elapsedSec = 0 then NotNum
                             else if 0 < elapsedSec then PlusInf else MinusInf)\<rparr>) \<and>
         (\<forall>st. time_per_frame (final_report (arith e) elapsedSec st)
                = (if frame st \<noteq> 0
                   then Fin (rnd (arith e) (elapsedSec / real_of_int (frame st)))
                   else if elapsedSec = 0 then NotNum
                   else if 0 < elapsedSec then PlusInf else MinusInf))"
proof -
  have "\<not> zoom (main_store width height pixels0) < zoomEnd"
    using assms by (simp add: main_store_def)
  then have "main_loop e width height fps zoomEnd pixels0 = Some (Some (main_store width height pixels0))"
    by (simp add: main_loop_def Let_def render_loop.simps)
  then show ?thesis
    by (simp add: main_def final_report_def main_store_def quot_d_def div_d_def)
qed

theorem no_frames_when_zoomEnd_le_one_witness:
  "(1 :: real) \<le> 1 \<and>
   main_loop \<lparr>arith = exact_ops, max_threads = 1, schedule = (\<lambda>k. [(0, 0)]),
              hsv2bgr = (\<lambda>hsv. (7, 7, 7))\<rparr> 2 2 30 1 [] = Some (Some (main_store 2 2 [])) \<and>
   frame (main_store 2 2 []) = 0 \<and>
   main \<lparr>arith = exact_ops, max_threads = 1, schedule = (\<lambda>k. [(0, 0)]),
         hsv2bgr = (\<lambda>hsv. (7, 7, 7))\<rparr> 2 2 30 1 [] 5
     = Some (Some \<lparr>frames_generated = 0, final_zoom = 1, total_time = 5, time_per_frame = PlusInf\<rparr>) \<and>
   time_per_frame (final_report exact_ops 5 (main_store 2 2 [])) = PlusInf \<and>
   time_per_frame (final_report exact_ops 5 (main_store 2 2 []\<lparr>frame := 2\<rparr>)) = Fin (5 / 2)"
proof -
  let ?e = "\<lparr>arith = exact_ops, max_threads = 1, schedule = (\<lambda>k. [(0, 0)]),
             hsv2bgr = (\<lambda>hsv. (7, 7, 7))\<rparr>"
  note t = no_frames_when_zoomEnd_le_one[of 1 ?e 2 2 30 "[]" 5]
  from t have a: "main_loop ?e 2 2 30 1 [] = Some (Some (main_store 2 2 []))"
    "frame (main_store 2 2 []) = 0"
    "main ?e 2 2 30 1 [] 5
     = Some (Some \<lparr>frames_generated = 0, final_zoom = 1, total_time = 5, time_per_frame = PlusInf\<rparr>)"
    by simp_all
  from t have b: "\<forall>st. time_per_frame (final_report (arith ?e) 5 st)
                = (if frame st \<noteq> 0
                   then Fin (rnd (arith ?e) (5 / real_of_int (frame st)))
                   else if (5::real) = 0 then NotNum
                   else if 0 < (5::real) then PlusInf else MinusInf)"
    by simp
  from b[rule_format, of "main_store 2 2 []"]
  have c: "time_per_frame (final_report exact_ops 5 (main_store 2 2 [])) = PlusInf"
    by (simp add: main_store_def)
  from b[rule_format, of "main_store 2 2 []\<lparr>frame := 2\<rparr>"]
  have d: "time_per_frame (final_report exact_ops 5 (main_store 2 2 []\<lparr>frame := 2\<rparr>)) = Fin (5 / 2)"
    by (simp add: exact_ops_def)
  from a c d show ?thesis by simp
qed

end
